theory Spec2Isabelle
  imports Main
begin

section \<open>The stable-callback hook \<open>useEffectEvent\<close>\<close>

text \<open>
  The source (seven lines of TypeScript):
  \<^verbatim>\<open>
  export function useEffectEvent<T extends (...args: any[]) => any>(fn: T): T {
    const ref = useRef<T>(fn);
    ref.current = fn;
    return useCallback((...args: any[]) => {
      return ref.current(...args);
    }, []) as T;
  }
  \<close>
  A callable takes an argument list and either raises an error (\<open>Inl\<close>) or returns
  a result (\<open>Inr\<close>).
\<close>

type_synonym ('a, 'e, 'r) callable = "'a list \<Rightarrow> 'e + 'r"

text \<open>
  What invoking a JavaScript function value can do: return, raise what the callee raised,
  or fail with the engine's own TypeError because the value called is not a function.
\<close>

datatype ('e, 'r) outcome = Returned 'r | Threw 'e | NotAFunction

text \<open>
  A closure value: its object identity and the ref object it captured (by reference).
  The arrow function in the hook captures nothing but \<open>ref\<close>.
\<close>

record closure =
  closure_id :: nat
  captured_ref :: nat

text \<open>
  The hook state React keeps for one mounted component instance that calls the hook:
  the ref object made by \<open>useRef\<close>, and the callback memoised by \<open>useCallback\<close>
  with the dependency list it was memoised under.
\<close>

record hooks =
  ref_hook :: nat
  callback_hook :: closure
  callback_deps :: "nat list"

text \<open>
  The store. \<open>heap\<close> holds the ref objects, addressed by position; an entry is the
  ref's \<open>current\<close> field, \<open>None\<close> standing for null/undefined. \<open>fibers\<close> maps a
  mounted instance to its hook state. \<open>closures_made\<close> numbers the closure objects
  allocated so far, and \<open>ref_writes\<close> counts the executions of the assignment
  \<open>ref.current = fn\<close>.
\<close>

record ('a, 'e, 'r) react =
  heap :: "('a, 'e, 'r) callable option list"
  fibers :: "nat \<rightharpoonup> hooks"
  closures_made :: nat
  ref_writes :: nat

definition initial :: "('a, 'e, 'r) react" where
  "initial = \<lparr>heap = [], fibers = Map.empty, closures_made = 0, ref_writes = 0\<rparr>"

text \<open>
  \<open>useRef(init)\<close>: on the first render of the instance a new ref object holding
  \<open>init\<close>; on every later render the ref object of the first render, untouched.
\<close>

definition useRef ::
  "('a, 'e, 'r) callable \<Rightarrow> nat option \<Rightarrow> ('a, 'e, 'r) callable option list
     \<Rightarrow> nat \<times> ('a, 'e, 'r) callable option list" where
  "useRef init slot h =
     (case slot of
        None \<Rightarrow> (length h, h @ [Some init])
      | Some r \<Rightarrow> (r, h))"

text \<open>
  \<open>useCallback(cb, deps)\<close>: on the first render \<open>cb\<close> is memoised; on a later render
  the memoised callback is returned again when the dependencies are the same, and \<open>cb\<close>
  replaces it otherwise.
\<close>

definition useCallback ::
  "closure \<Rightarrow> nat list \<Rightarrow> (closure \<times> nat list) option \<Rightarrow> closure \<times> nat list" where
  "useCallback cb deps slot =
     (case slot of
        None \<Rightarrow> (cb, deps)
      | Some (memo, old) \<Rightarrow> if old = deps then (memo, old) else (cb, deps))"

text \<open>
  One call of the hook by instance \<open>i\<close> with \<open>fn\<close>: the construction on the first
  call, a reconstruction on every later one. The arrow function is evaluated on every
  call (a new closure object each time); \<open>useCallback\<close> decides which one is returned.
\<close>

definition useEffectEvent ::
  "nat \<Rightarrow> ('a, 'e, 'r) callable \<Rightarrow> ('a, 'e, 'r) react \<Rightarrow> closure \<times> ('a, 'e, 'r) react" where
  "useEffectEvent i fn w =
     (let slot = fibers w i;
          (ref, h1) = useRef fn (map_option ref_hook slot) (heap w);
          h2 = h1[ref := Some fn];
          cb = \<lparr>closure_id = closures_made w, captured_ref = ref\<rparr>;
          (handle, deps) =
            useCallback cb [] (map_option (\<lambda>k. (callback_hook k, callback_deps k)) slot)
      in (handle,
          w\<lparr>heap := h2,
            fibers := (fibers w)(i \<mapsto>
              \<lparr>ref_hook = ref, callback_hook = handle, callback_deps = deps\<rparr>),
            closures_made := closures_made w + 1,
            ref_writes := ref_writes w + 1\<rparr>))"

text \<open>The callable a handle resolves to at this moment: \<open>ref.current\<close>.\<close>

definition current_fn :: "('a, 'e, 'r) react \<Rightarrow> closure \<Rightarrow> ('a, 'e, 'r) callable option" where
  "current_fn w h =
     (if captured_ref h < length (heap w) then heap w ! captured_ref h else None)"

text \<open>
  Invoking the handle: \<open>return ref.current(...args)\<close>. There is no try/catch, so what the
  stored callable raises is what the invocation raises; calling a null \<open>current\<close> is
  the engine's TypeError.
\<close>

definition invoke :: "('a, 'e, 'r) react \<Rightarrow> closure \<Rightarrow> 'a list \<Rightarrow> ('e, 'r) outcome" where
  "invoke w h args =
     (case current_fn w h of
        None \<Rightarrow> NotAFunction
      | Some f \<Rightarrow> (case f args of Inl e \<Rightarrow> Threw e | Inr r \<Rightarrow> Returned r))"

text \<open>Calling the callable directly, with the same reading of its result.\<close>

definition call :: "('a, 'e, 'r) callable \<Rightarrow> 'a list \<Rightarrow> ('e, 'r) outcome" where
  "call f args = (case f args of Inl e \<Rightarrow> Threw e | Inr r \<Rightarrow> Returned r)"

text \<open>
  A history of renders: each entry is an instance and the callable it passes to the hook
  in that render. \<open>renders\<close> is the store after the history, from the empty store.
\<close>

definition render :: "('a, 'e, 'r) react \<Rightarrow> nat \<times> ('a, 'e, 'r) callable \<Rightarrow> ('a, 'e, 'r) react" where
  "render w r = snd (useEffectEvent (fst r) (snd r) w)"

definition renders :: "(nat \<times> ('a, 'e, 'r) callable) list \<Rightarrow> ('a, 'e, 'r) react" where
  "renders rs = foldl render initial rs"

text \<open>The handle instance \<open>i\<close> holds after a history, if it is mounted.\<close>

definition handle_of :: "('a, 'e, 'r) react \<Rightarrow> nat \<Rightarrow> closure option" where
  "handle_of w i = map_option callback_hook (fibers w i)"

text \<open>
  Well-formed stores: every mounted instance has a ref object in the heap that holds a
  callable, its memoised callback captured that ref and was memoised under the empty
  dependency list, and no two instances share a ref object or a callback.
\<close>

definition store_ok :: "('a, 'e, 'r) react \<Rightarrow> bool" where
  "store_ok w \<longleftrightarrow>
     (\<forall>i k. fibers w i = Some k \<longrightarrow>
        ref_hook k < length (heap w) \<and> heap w ! ref_hook k \<noteq> None \<and>
        captured_ref (callback_hook k) = ref_hook k \<and>
        closure_id (callback_hook k) < closures_made w \<and>
        callback_deps k = []) \<and>
     (\<forall>i j k l. i \<noteq> j \<longrightarrow> fibers w i = Some k \<longrightarrow> fibers w j = Some l \<longrightarrow>
        ref_hook k \<noteq> ref_hook l \<and>
        closure_id (callback_hook k) \<noteq> closure_id (callback_hook l))"

text \<open>The callable most recently passed to the hook by instance \<open>i\<close> in a history.\<close>

definition latest ::
  "(nat \<times> ('a, 'e, 'r) callable) list \<Rightarrow> nat \<Rightarrow> ('a, 'e, 'r) callable option" where
  "latest rs i = map_of (rev rs) i"

text \<open>The two-argument addition \<open>(x, y) => x + y\<close> of the specification's example.\<close>

definition add2 :: "(int, string, int) callable" where
  "add2 args = (case args of [x, y] \<Rightarrow> Inr (x + y) | _ \<Rightarrow> Inl ''arity'')"

section \<open>The log sink of the demo page\<close>

text \<open>
  \<open>arr.slice(-n)\<close>: the last \<open>n\<close> elements, the whole array when it has fewer. The
  start index is \<open>max (length - n) 0\<close>, which is what the truncating subtraction of
  \<open>nat\<close> computes.
\<close>

definition slice_last :: "nat \<Rightarrow> 'a list \<Rightarrow> 'a list" where
  "slice_last n xs = drop (length xs - n) xs"

text \<open>
  The template string \<^verbatim>\<open>`[${timestamp}] ${message}`\<close>. The timestamp is what
  \<open>new Date().toLocaleTimeString()\<close> returns at the call; it is an input here.
\<close>

definition logWithTime :: "string \<Rightarrow> string \<Rightarrow> string" where
  "logWithTime timestamp message = ''['' @ timestamp @ ''] '' @ message"

text \<open>
  \<open>handleLog\<close>, as the state update it passes to \<open>setLogs\<close>:
  \<^verbatim>\<open>
  setLogs(prev => {
    if (prev.length > 0 && prev[prev.length - 1] === logWithTime) {
      return prev;
    }
    return [...prev.slice(-20), logWithTime];
  });
  \<close>
\<close>

definition handleLog :: "string \<Rightarrow> string \<Rightarrow> string list \<Rightarrow> string list" where
  "handleLog timestamp message prev =
     (if length prev > 0 \<and> prev ! (length prev - 1) = logWithTime timestamp message
      then prev
      else slice_last 20 prev @ [logWithTime timestamp message])"

text \<open>\<open>arr.findIndex(p)\<close>: the first index whose element satisfies \<open>p\<close>, or \<open>-1\<close>.\<close>

fun findIndex_from :: "nat \<Rightarrow> ('a \<Rightarrow> bool) \<Rightarrow> 'a list \<Rightarrow> int" where
  "findIndex_from i P [] = -1"
| "findIndex_from i P (x # xs) = (if P x then int i else findIndex_from (Suc i) P xs)"

definition findIndex :: "('a \<Rightarrow> bool) \<Rightarrow> 'a list \<Rightarrow> int" where
  "findIndex P arr = findIndex_from 0 P arr"

text \<open>
  The list the performance monitor displays:
  \<^verbatim>\<open>
  const uniqueLogs = logs.filter((log, index, arr) =>
    arr.findIndex(l => l === log) === index
  ).slice(-15);
  \<close>
\<close>

definition uniqueLogs :: "string list \<Rightarrow> string list" where
  "uniqueLogs logs =
     slice_last 15
       (map snd (filter (\<lambda>(index, log). findIndex (\<lambda>l. l = log) logs = int index)
                   (List.enumerate 0 logs)))"

text \<open>
  The buffer after a sequence of \<open>handleLog\<close> calls, each with its timestamp and
  message, from the empty buffer of \<open>useState([])\<close> (and of \<open>clearLogs\<close>).
\<close>

definition logged :: "(string \<times> string) list \<Rightarrow> string list" where
  "logged evs = foldl (\<lambda>logs (timestamp, message). handleLog timestamp message logs) [] evs"

text \<open>A list with every repeat of an earlier element removed, in the original order.\<close>

definition first_occurrences :: "'a list \<Rightarrow> 'a list" where
  "first_occurrences xs = rev (remdups (rev xs))"

text \<open>\<open>n\<close> different messages logged within one second.\<close>

definition numbered :: "nat \<Rightarrow> (string \<times> string) list" where
  "numbered n = map (\<lambda>k. (''10:00:00'', replicate k CHR ''x'')) [1..<Suc n]"

section \<open>The quiz component \<open>ThinkTank\<close>\<close>

text \<open>
  The quiz questions of \<open>data/quizQuestions.ts\<close>, with the fields the component computes
  with: the identifier, the number of answer options and the index of the correct one.
\<close>

record QuizQuestion =
  question_id :: nat
  options_count :: nat
  correctAnswer :: nat

definition quizQuestions :: "QuizQuestion list" where
  "quizQuestions =
     [\<lparr>question_id = 1, options_count = 4, correctAnswer = 1\<rparr>,
      \<lparr>question_id = 2, options_count = 4, correctAnswer = 1\<rparr>,
      \<lparr>question_id = 3, options_count = 4, correctAnswer = 1\<rparr>,
      \<lparr>question_id = 4, options_count = 4, correctAnswer = 3\<rparr>,
      \<lparr>question_id = 5, options_count = 2, correctAnswer = 1\<rparr>,
      \<lparr>question_id = 6, options_count = 4, correctAnswer = 2\<rparr>,
      \<lparr>question_id = 7, options_count = 4, correctAnswer = 1\<rparr>,
      \<lparr>question_id = 8, options_count = 4, correctAnswer = 2\<rparr>]"

subsection \<open>Numbers\<close>

text \<open>
  A JavaScript number is an IEEE double: 53 significant bits. The counters of a team
  member hold integers (the component writes 0 and adds 1, and what \<open>JSON.parse\<close> reads
  back is what was stored), so a counter is modelled by the integer it holds, and the
  arithmetic on it is the double's: the exact result, rounded to the nearest integer
  with 53 significant bits, a tie going to the even significand.

  \<open>excess_bits n\<close> is the number of low bits that \<open>n\<close> has beyond 53.
\<close>

function excess_bits :: "nat \<Rightarrow> nat" where
  "excess_bits n = (if n < 2 ^ 53 then 0 else Suc (excess_bits (n div 2)))"
  by pat_completeness auto
termination
  by (relation "measure (\<lambda>n. n)") auto

declare excess_bits.simps [simp del]

definition to_double :: "int \<Rightarrow> int" where
  "to_double x =
     (let n = nat \<bar>x\<bar>;
          e = excess_bits n;
          q = n div 2 ^ e;
          r = n mod 2 ^ e;
          m = (if 2 * r > 2 ^ e \<or> (2 * r = 2 ^ e \<and> odd q) then q + 1 else q)
      in sgn x * int (m * 2 ^ e))"

text \<open>\<open>x + y\<close> on two numbers that hold integers.\<close>

definition js_add :: "int \<Rightarrow> int \<Rightarrow> int" where
  "js_add x y = to_double (x + y)"

subsection \<open>The data and the browser\<close>

record TeamMember =
  name :: string
  totalBonus :: int
  questionsAnswered :: int
  correctAnswers :: int
  lastActivity :: string

datatype js_error = SyntaxError | TypeError

text \<open>
  What a property that an object only inherits can hold, as far as the component can
  tell: an object or function (truthy, and it accepts new properties), a primitive
  that is truthy, or a value that is falsy.
\<close>

datatype inherited = TruthyObject | TruthyPrimitive | Falsy

text \<open>
  The browser as the component uses it: the \<open>localStorage\<close> items, the keys passed to
  \<open>getItem\<close> and the pairs passed to \<open>setItem\<close> so far, the messages of
  \<open>window.alert\<close>, the errors that left a handler uncaught, and the state of
  \<open>Object.prototype\<close>. The latter is \<open>None\<close> as the engine creates it; the component
  can add properties to it (see \<open>handleAwardPoint\<close>), and then it is \<open>Some\<close> of the
  \<open>lastActivity\<close> string written to it.
\<close>

record browser =
  items :: "string \<rightharpoonup> string"
  getItem_calls :: "string list"
  setItem_calls :: "(string \<times> string) list"
  alerts :: "string list"
  uncaught :: "js_error list"
  prototype_added :: "string option"

definition getItem :: "string \<Rightarrow> browser \<Rightarrow> string option \<times> browser" where
  "getItem key b = (items b key, b\<lparr>getItem_calls := getItem_calls b @ [key]\<rparr>)"

definition setItem :: "string \<Rightarrow> string \<Rightarrow> browser \<Rightarrow> browser" where
  "setItem key v b =
     b\<lparr>items := (items b)(key \<mapsto> v), setItem_calls := setItem_calls b @ [(key, v)]\<rparr>"

text \<open>
  The properties every object inherits from \<open>Object.prototype\<close>: the built-in ones,
  which are functions (and \<open>__proto__\<close>, which yields \<open>Object.prototype\<close> itself), and
  the four the component may have added, three of them \<open>NaN\<close> and one a string.
\<close>

definition builtin_keys :: "string list" where
  "builtin_keys =
     [''constructor'', ''__defineGetter__'', ''__defineSetter__'', ''hasOwnProperty'',
      ''__lookupGetter__'', ''__lookupSetter__'', ''isPrototypeOf'', ''propertyIsEnumerable'',
      ''toString'', ''valueOf'', ''__proto__'', ''toLocaleString'']"

definition inherited_property :: "browser \<Rightarrow> string \<Rightarrow> inherited option" where
  "inherited_property b key =
     (if key \<in> set builtin_keys then Some TruthyObject
      else (case prototype_added b of
              None \<Rightarrow> None
            | Some activity \<Rightarrow>
                if key \<in> set [''questionsAnswered'', ''correctAnswers'', ''totalBonus'']
                then Some Falsy
                else if key = ''lastActivity''
                then Some (if activity = [] then Falsy else TruthyPrimitive)
                else None))"

text \<open>
  The state of the component, one field for each \<open>useState\<close>. \<open>selectedAnswers\<close> is a
  JavaScript array, which can have holes (\<open>None\<close>). \<open>teamData\<close> holds the own keys of
  the team-data object.
\<close>

record quiz =
  currentQuestion :: nat
  selectedAnswers :: "nat option list"
  showResults :: bool
  showExplanation :: bool
  showLeaderboard :: bool
  awardMember :: string
  awardedForQuestion :: "nat \<rightharpoonup> string"
  teamData :: "string \<rightharpoonup> TeamMember"

text \<open>
  The truth value JavaScript gives a string that may be undefined: undefined and the
  empty string are falsy.
\<close>

definition truthy :: "string option \<Rightarrow> bool" where
  "truthy v = (case v of None \<Rightarrow> False | Some str \<Rightarrow> str \<noteq> [])"

text \<open>
  The map built by \<open>TEAM_MEMBERS.forEach(name => { initial[name] = {...} })\<close>. The list
  \<open>TEAM_MEMBERS\<close> is defined in \<open>data/teamMembers\<close> and is a parameter here. The
  assignment \<open>initial['__proto__'] = {...}\<close> creates no key: it replaces the prototype of
  \<open>initial\<close>, which nothing in the component reads (the handlers copy the own keys
  into a new object first).
\<close>

definition initialTeamData :: "string list \<Rightarrow> string \<rightharpoonup> TeamMember" where
  "initialTeamData members =
     foldl (\<lambda>acc n. if n = ''__proto__'' then acc
              else acc(n \<mapsto>
                \<lparr>name = n, totalBonus = 0, questionsAnswered = 0, correctAnswers = 0,
                 lastActivity = ''Never''\<rparr>))
       Map.empty members"

subsection \<open>Mounting\<close>

text \<open>
  The initialiser of the \<open>teamData\<close> state:
  \<^verbatim>\<open>
  const saved = localStorage.getItem('thinkTankTeamData');
  if (saved) { return JSON.parse(saved); }
  ... return initial;
  \<close>
  \<open>JSON.parse\<close> is the parameter \<open>parse\<close>; \<open>None\<close> is its SyntaxError.
\<close>

definition loadTeamData ::
  "string list \<Rightarrow> (string \<Rightarrow> (string \<rightharpoonup> TeamMember) option) \<Rightarrow> browser
     \<Rightarrow> (js_error + (string \<rightharpoonup> TeamMember)) \<times> browser" where
  "loadTeamData members parse b =
     (let (saved, b1) = getItem ''thinkTankTeamData'' b
      in (case saved of
            None \<Rightarrow> Inr (initialTeamData members)
          | Some str \<Rightarrow>
              if str \<noteq> [] then
                (case parse str of None \<Rightarrow> Inl SyntaxError | Some data \<Rightarrow> Inr data)
              else Inr (initialTeamData members),
          b1))"

text \<open>
  Mounting the component: the first render, every state at its initial value. When the
  render throws, React renders the component once more before it gives up, so an
  initialiser that throws is run a second time; when that throws too the component is
  not mounted.
\<close>

definition mount ::
  "string list \<Rightarrow> (string \<Rightarrow> (string \<rightharpoonup> TeamMember) option) \<Rightarrow> browser
     \<Rightarrow> (js_error + quiz) \<times> browser" where
  "mount members parse b =
     (let first_state = (\<lambda>data.
            \<lparr>currentQuestion = 0, selectedAnswers = [], showResults = False,
             showExplanation = False, showLeaderboard = False, awardMember = [],
             awardedForQuestion = Map.empty, teamData = data\<rparr>)
      in case loadTeamData members parse b of
           (Inr data, b1) \<Rightarrow> (Inr (first_state data), b1)
         | (Inl e, b1) \<Rightarrow>
             (case loadTeamData members parse b1 of
                (Inr data, b2) \<Rightarrow> (Inr (first_state data), b2)
              | (Inl e2, b2) \<Rightarrow> (Inl e2, b2)))"

subsection \<open>The handlers\<close>

text \<open>
  The assignment \<open>arr[i] = v\<close> on a JavaScript array: in range it replaces the element,
  beyond the end it extends the array, leaving holes in between.
\<close>

definition array_set :: "'a option list \<Rightarrow> nat \<Rightarrow> 'a \<Rightarrow> 'a option list" where
  "array_set arr i v =
     (if i < length arr then arr[i := Some v]
      else arr @ replicate (i - length arr) None @ [Some v])"

definition handleAnswer :: "nat \<Rightarrow> quiz \<Rightarrow> quiz" where
  "handleAnswer answerIndex s =
     s\<lparr>selectedAnswers := array_set (selectedAnswers s) (currentQuestion s) answerIndex,
       showExplanation := True\<rparr>"

text \<open>
  \<open>handleAwardPoint\<close>:
  \<^verbatim>\<open>
  const questionIndex = currentQuestion;
  if (awardedForQuestion[questionIndex]) return; // already awarded
  if (!awardMember) { window.alert('Please choose ...'); return; }
  const newTeamData = { ...teamData };
  const member = newTeamData[awardMember];
  if (!member) return;
  member.questionsAnswered += 1;
  member.correctAnswers += 1;
  member.totalBonus += 1;
  member.lastActivity = new Date().toLocaleString();
  const newAwarded = { ...awardedForQuestion, [questionIndex]: awardMember };
  setTeamData(newTeamData);
  setAwardedForQuestion(newAwarded);
  localStorage.setItem('thinkTankTeamData', JSON.stringify(newTeamData));
  \<close>
  \<open>JSON.stringify\<close> is the parameter \<open>stringify\<close> and \<open>now\<close> is what
  \<open>new Date().toLocaleString()\<close> returns. The property read \<open>newTeamData[awardMember]\<close>
  finds an own key of the map first and an inherited property of \<open>Object.prototype\<close>
  otherwise:
  \<^item> an own key is a member object, updated in place; the new map with the updated
    member is the state set and the value stored;
  \<^item> an inherited object or function takes the four assignments itself, the map keeps
    its keys and is stored as it is; through \<open>__proto__\<close> the object is
    \<open>Object.prototype\<close>, which thereby gets the four properties (\<open>undefined + 1\<close> is
    \<open>NaN\<close>);
  \<^item> an inherited truthy primitive cannot take a property: in a module (strict code) the
    first assignment raises a TypeError, which leaves the handler before any state is set;
  \<open>undefined\<close> and an inherited falsy value return at \<open>if (!member)\<close>.
\<close>

definition handleAwardPoint ::
  "((string \<rightharpoonup> TeamMember) \<Rightarrow> string) \<Rightarrow> string \<Rightarrow> quiz \<times> browser \<Rightarrow> quiz \<times> browser" where
  "handleAwardPoint stringify now sb =
     (let (s, b) = sb; questionIndex = currentQuestion s
      in if truthy (awardedForQuestion s questionIndex) then (s, b)
         else if awardMember s = [] then
           (s, b\<lparr>alerts := alerts b @ [''Please choose who gave the correct answer.'']\<rparr>)
         else
           (case teamData s (awardMember s) of
              Some member \<Rightarrow>
                let member' = member\<lparr>questionsAnswered := js_add (questionsAnswered member) 1,
                                     correctAnswers := js_add (correctAnswers member) 1,
                                     totalBonus := js_add (totalBonus member) 1,
                                     lastActivity := now\<rparr>;
                    newTeamData = (teamData s)(awardMember s \<mapsto> member');
                    newAwarded = (awardedForQuestion s)(questionIndex \<mapsto> awardMember s)
                in (s\<lparr>teamData := newTeamData, awardedForQuestion := newAwarded\<rparr>,
                    setItem ''thinkTankTeamData'' (stringify newTeamData) b)
            | None \<Rightarrow>
                (case inherited_property b (awardMember s) of
                   None \<Rightarrow> (s, b)
                 | Some Falsy \<Rightarrow> (s, b)
                 | Some TruthyPrimitive \<Rightarrow> (s, b\<lparr>uncaught := uncaught b @ [TypeError]\<rparr>)
                 | Some TruthyObject \<Rightarrow>
                     let b1 = (if awardMember s = ''__proto__''
                               then b\<lparr>prototype_added := Some now\<rparr> else b);
                         newAwarded = (awardedForQuestion s)(questionIndex \<mapsto> awardMember s)
                     in (s\<lparr>awardedForQuestion := newAwarded\<rparr>,
                         setItem ''thinkTankTeamData'' (stringify (teamData s)) b1))))"

definition nextQuestion :: "quiz \<Rightarrow> quiz" where
  "nextQuestion s =
     (let s1 = s\<lparr>showExplanation := False\<rparr>
      in if int (currentQuestion s) < int (length quizQuestions) - 1
         then s1\<lparr>currentQuestion := currentQuestion s + 1\<rparr>
         else s1\<lparr>showResults := True\<rparr>)"

definition resetQuiz :: "quiz \<Rightarrow> quiz" where
  "resetQuiz s =
     s\<lparr>currentQuestion := 0, selectedAnswers := [], showResults := False,
       showExplanation := False, awardMember := [], awardedForQuestion := Map.empty\<rparr>"

text \<open>\<open>resetAllTeamData\<close>; \<open>confirmed\<close> is the answer to \<open>window.confirm\<close>.\<close>

definition resetAllTeamData ::
  "string list \<Rightarrow> ((string \<rightharpoonup> TeamMember) \<Rightarrow> string) \<Rightarrow> bool \<Rightarrow> quiz \<times> browser
     \<Rightarrow> quiz \<times> browser" where
  "resetAllTeamData members stringify confirmed sb =
     (let (s, b) = sb
      in if confirmed then
           (let resetData = initialTeamData members
            in (s\<lparr>teamData := resetData\<rparr>,
                setItem ''thinkTankTeamData'' (stringify resetData) b))
         else (s, b))"

text \<open>
  \<open>calculateScore\<close>:
  \<^verbatim>\<open>
  selectedAnswers.reduce((score, answer, index) => {
    return score + (answer === quizQuestions[index].correctAnswer ? 1 : 0);
  }, 0)
  \<close>
  \<open>reduce\<close> skips the holes of the array. Where \<open>index\<close> is beyond the questions,
  \<open>quizQuestions[index]\<close> is undefined and reading its \<open>correctAnswer\<close> raises a
  TypeError.
\<close>

fun reduce_score :: "QuizQuestion list \<Rightarrow> nat \<Rightarrow> nat option list \<Rightarrow> nat \<Rightarrow> js_error + nat" where
  "reduce_score qs index [] score = Inr score"
| "reduce_score qs index (None # rest) score = reduce_score qs (Suc index) rest score"
| "reduce_score qs index (Some answer # rest) score =
     (if index < length qs
      then reduce_score qs (Suc index) rest
             (score + (if answer = correctAnswer (qs ! index) then 1 else 0))
      else Inl TypeError)"

definition calculateScore :: "quiz \<Rightarrow> js_error + nat" where
  "calculateScore s = reduce_score quizQuestions 0 (selectedAnswers s) 0"

text \<open>
  The indices at which the selected answer is the question's correct answer, as the
  specification counts them.
\<close>

definition matching_indices :: "nat option list \<Rightarrow> nat list" where
  "matching_indices answers =
     filter (\<lambda>i. answers ! i = Some (correctAnswer (quizQuestions ! i))) [0..<length answers]"

subsection \<open>Sequences of actions\<close>

text \<open>The user's actions, each with the input the handler takes from outside.\<close>

datatype event =
    HandleAnswer nat
  | HandleAwardPoint string
  | NextQuestion
  | ResetQuiz
  | ResetAllTeamData bool
  | SetAwardMember string
  | SetShowLeaderboard bool

definition step ::
  "string list \<Rightarrow> ((string \<rightharpoonup> TeamMember) \<Rightarrow> string) \<Rightarrow> quiz \<times> browser \<Rightarrow> event
     \<Rightarrow> quiz \<times> browser" where
  "step members stringify sb ev =
     (case ev of
        HandleAnswer answerIndex \<Rightarrow> (handleAnswer answerIndex (fst sb), snd sb)
      | HandleAwardPoint now \<Rightarrow> handleAwardPoint stringify now sb
      | NextQuestion \<Rightarrow> (nextQuestion (fst sb), snd sb)
      | ResetQuiz \<Rightarrow> (resetQuiz (fst sb), snd sb)
      | ResetAllTeamData confirmed \<Rightarrow> resetAllTeamData members stringify confirmed sb
      | SetAwardMember m \<Rightarrow> ((fst sb)\<lparr>awardMember := m\<rparr>, snd sb)
      | SetShowLeaderboard v \<Rightarrow> ((fst sb)\<lparr>showLeaderboard := v\<rparr>, snd sb))"

text \<open>Any sequence of handler calls, whether or not the rendered view offers them.\<close>

definition run ::
  "string list \<Rightarrow> ((string \<rightharpoonup> TeamMember) \<Rightarrow> string) \<Rightarrow> quiz \<times> browser \<Rightarrow> event list
     \<Rightarrow> quiz \<times> browser" where
  "run members stringify sb evs = foldl (step members stringify) sb evs"

text \<open>
  The condition \<open>selectedAnswers[currentQuestion] === question.correctAnswer\<close> under
  which the view shows the award controls.
\<close>

definition answered_correctly :: "quiz \<Rightarrow> bool" where
  "answered_correctly s \<longleftrightarrow>
     currentQuestion s < length (selectedAnswers s) \<and> currentQuestion s < length quizQuestions \<and>
     selectedAnswers s ! currentQuestion s
       = Some (correctAnswer (quizQuestions ! currentQuestion s))"

text \<open>
  The controls the rendered view offers in a state. The leaderboard view (checked first)
  has the back button and the reset button; the results view has the retake button and
  the leaderboard button; the question view has the leaderboard button, the option
  buttons until one is chosen, and then the next button and, after a correct answer, the
  member dropdown and the award button (disabled once awarded).
\<close>

definition offered :: "string list \<Rightarrow> quiz \<Rightarrow> event \<Rightarrow> bool" where
  "offered members s ev =
     (if showLeaderboard s then
        (case ev of SetShowLeaderboard v \<Rightarrow> \<not> v | ResetAllTeamData _ \<Rightarrow> True | _ \<Rightarrow> False)
      else if showResults s then
        (case ev of ResetQuiz \<Rightarrow> True | SetShowLeaderboard v \<Rightarrow> v | _ \<Rightarrow> False)
      else
        (case ev of
           SetShowLeaderboard v \<Rightarrow> v
         | HandleAnswer answerIndex \<Rightarrow>
             \<not> showExplanation s \<and> currentQuestion s < length quizQuestions \<and>
             answerIndex < options_count (quizQuestions ! currentQuestion s)
         | NextQuestion \<Rightarrow> showExplanation s
         | SetAwardMember m \<Rightarrow>
             showExplanation s \<and> answered_correctly s \<and> (m = [] \<or> m \<in> set members)
         | HandleAwardPoint _ \<Rightarrow>
             showExplanation s \<and> answered_correctly s \<and>
             \<not> truthy (awardedForQuestion s (currentQuestion s))
         | _ \<Rightarrow> False))"

definition fire ::
  "string list \<Rightarrow> ((string \<rightharpoonup> TeamMember) \<Rightarrow> string) \<Rightarrow> quiz \<times> browser \<Rightarrow> event
     \<Rightarrow> quiz \<times> browser" where
  "fire members stringify sb ev =
     (if offered members (fst sb) ev then step members stringify sb ev else sb)"

text \<open>A session of the user: every action is taken only where the view offers it.\<close>

definition play ::
  "string list \<Rightarrow> ((string \<rightharpoonup> TeamMember) \<Rightarrow> string) \<Rightarrow> quiz \<times> browser \<Rightarrow> event list
     \<Rightarrow> quiz \<times> browser" where
  "play members stringify sb evs = foldl (fire members stringify) sb evs"

text \<open>
  What the handlers keep true from mounting on: the current question exists, and the
  array of answers is no longer than the quiz.
\<close>

definition answers_fit :: "quiz \<Rightarrow> bool" where
  "answers_fit s \<longleftrightarrow>
     currentQuestion s < length quizQuestions \<and>
     length (selectedAnswers s) \<le> length quizQuestions"

text \<open>Every member recorded as awarded for a question has a non-empty name.\<close>

definition awardees_ok :: "quiz \<Rightarrow> bool" where
  "awardees_ok s \<longleftrightarrow> (\<forall>q m. awardedForQuestion s q = Some m \<longrightarrow> m \<noteq> [])"

text \<open>Concrete inputs for the examples: a serialiser, an empty browser, a fresh quiz.\<close>

definition demo_stringify :: "(string \<rightharpoonup> TeamMember) \<Rightarrow> string" where
  "demo_stringify data =
     (case data ''Ann'' of
        None \<Rightarrow> ''{}''
      | Some m \<Rightarrow> if totalBonus m = 0 then ''{Ann:0}'' else ''{Ann:+}'')"

definition demo_browser :: browser where
  "demo_browser =
     \<lparr>items = Map.empty, getItem_calls = [], setItem_calls = [], alerts = [], uncaught = [],
      prototype_added = None\<rparr>"

definition demo_quiz :: quiz where
  "demo_quiz =
     \<lparr>currentQuestion = 0, selectedAnswers = [], showResults = False, showExplanation = False,
      showLeaderboard = False, awardMember = [], awardedForQuestion = Map.empty,
      teamData = initialTeamData [''Ann'', ''Bob'']\<rparr>"

section \<open>Properties of the hook\<close>

subsection \<open>The hook on a mounted and on an unmounted instance\<close>

lemma useEffectEvent_mount:
  assumes "fibers w i = None"
  shows "useEffectEvent i fn w =
     (\<lparr>closure_id = closures_made w, captured_ref = length (heap w)\<rparr>,
      w\<lparr>heap := heap w @ [Some fn],
        fibers := (fibers w)(i \<mapsto>
          \<lparr>ref_hook = length (heap w),
           callback_hook = \<lparr>closure_id = closures_made w, captured_ref = length (heap w)\<rparr>,
           callback_deps = []\<rparr>),
        closures_made := closures_made w + 1,
        ref_writes := ref_writes w + 1\<rparr>)"
  using assms by (simp add: useEffectEvent_def useRef_def useCallback_def Let_def)

lemma useEffectEvent_update:
  assumes "fibers w i = Some k" and "callback_deps k = []"
  shows "useEffectEvent i fn w =
     (callback_hook k,
      w\<lparr>heap := (heap w)[ref_hook k := Some fn],
        fibers := (fibers w)(i \<mapsto> k),
        closures_made := closures_made w + 1,
        ref_writes := ref_writes w + 1\<rparr>)"
  using assms by (cases k) (simp add: useEffectEvent_def useRef_def useCallback_def Let_def)

lemma store_ok_initial: "store_ok initial"
  by (simp add: store_ok_def initial_def)

lemma store_ok_old:
  assumes "store_ok w" and "fibers w j = Some k"
  shows "ref_hook k < length (heap w)" and "\<exists>f. heap w ! ref_hook k = Some f"
    and "captured_ref (callback_hook k) = ref_hook k"
    and "closure_id (callback_hook k) < closures_made w" and "callback_deps k = []"
  using assms unfolding store_ok_def by blast+

lemma store_ok_sep:
  assumes "store_ok w" and "i \<noteq> j" and "fibers w i = Some k" and "fibers w j = Some l"
  shows "ref_hook k \<noteq> ref_hook l"
    and "closure_id (callback_hook k) \<noteq> closure_id (callback_hook l)"
  using assms unfolding store_ok_def by blast+

lemma store_okI:
  assumes "\<And>i k. fibers w i = Some k \<Longrightarrow>
        ref_hook k < length (heap w) \<and> heap w ! ref_hook k \<noteq> None \<and>
        captured_ref (callback_hook k) = ref_hook k \<and>
        closure_id (callback_hook k) < closures_made w \<and> callback_deps k = []"
    and "\<And>i j k l. i \<noteq> j \<Longrightarrow> fibers w i = Some k \<Longrightarrow> fibers w j = Some l \<Longrightarrow>
        ref_hook k \<noteq> ref_hook l \<and>
        closure_id (callback_hook k) \<noteq> closure_id (callback_hook l)"
  shows "store_ok w"
  unfolding store_ok_def using assms by blast

lemma store_ok_useEffectEvent:
  assumes "store_ok w"
  shows "store_ok (snd (useEffectEvent i fn w))"
proof (cases "fibers w i")
  case None
  let ?n = "length (heap w)" and ?c = "closures_made w"
  let ?k = "\<lparr>ref_hook = ?n, callback_hook = \<lparr>closure_id = ?c, captured_ref = ?n\<rparr>,
             callback_deps = []\<rparr>"
  let ?w = "w\<lparr>heap := heap w @ [Some fn], fibers := (fibers w)(i \<mapsto> ?k),
             closures_made := ?c + 1, ref_writes := ref_writes w + 1\<rparr>"
  have "store_ok ?w"
  proof (rule store_okI)
    fix j l assume a: "fibers ?w j = Some l"
    show "ref_hook l < length (heap ?w) \<and> heap ?w ! ref_hook l \<noteq> None \<and>
        captured_ref (callback_hook l) = ref_hook l \<and>
        closure_id (callback_hook l) < closures_made ?w \<and> callback_deps l = []"
    proof (cases "j = i")
      case True
      with a have "l = ?k" by simp
      then show ?thesis by simp
    next
      case False
      with a have b: "fibers w j = Some l" by simp
      show ?thesis using store_ok_old [OF assms b] by (auto simp: nth_append)
    qed
  next
    fix j j' l m
    assume a: "j \<noteq> j'" "fibers ?w j = Some l" "fibers ?w j' = Some m"
    show "ref_hook l \<noteq> ref_hook m \<and>
        closure_id (callback_hook l) \<noteq> closure_id (callback_hook m)"
    proof (cases "j = i")
      case True
      with a have l: "l = ?k" and m: "fibers w j' = Some m" by simp_all
      show ?thesis using store_ok_old(1,4) [OF assms m] l by auto
    next
      case False
      with a have l: "fibers w j = Some l" by simp
      show ?thesis
      proof (cases "j' = i")
        case True
        with a have m: "m = ?k" by simp
        show ?thesis using store_ok_old(1,4) [OF assms l] m by auto
      next
        case False
        with a have m: "fibers w j' = Some m" by simp
        show ?thesis using store_ok_sep [OF assms a(1) l m] by simp
      qed
    qed
  qed
  then show ?thesis by (simp add: useEffectEvent_mount [OF None])
next
  case (Some k)
  have d: "callback_deps k = []" using store_ok_old(5) [OF assms Some] .
  have upd: "(fibers w)(i \<mapsto> k) = fibers w" using Some by (auto simp: fun_upd_idem)
  let ?w = "w\<lparr>heap := (heap w)[ref_hook k := Some fn], fibers := fibers w,
             closures_made := closures_made w + 1, ref_writes := ref_writes w + 1\<rparr>"
  have "store_ok ?w"
  proof (rule store_okI)
    fix j l assume a: "fibers ?w j = Some l"
    then have b: "fibers w j = Some l" by simp
    show "ref_hook l < length (heap ?w) \<and> heap ?w ! ref_hook l \<noteq> None \<and>
        captured_ref (callback_hook l) = ref_hook l \<and>
        closure_id (callback_hook l) < closures_made ?w \<and> callback_deps l = []"
      using store_ok_old [OF assms b] store_ok_old(1) [OF assms Some] by (auto simp: nth_list_update)
  next
    fix j j' l m
    assume a: "j \<noteq> j'" "fibers ?w j = Some l" "fibers ?w j' = Some m"
    then have l: "fibers w j = Some l" and m: "fibers w j' = Some m" by simp_all
    show "ref_hook l \<noteq> ref_hook m \<and>
        closure_id (callback_hook l) \<noteq> closure_id (callback_hook m)"
      using store_ok_sep [OF assms a(1) l m] by simp
  qed
  then show ?thesis by (simp add: useEffectEvent_update [OF Some d] upd)
qed

lemma store_ok_renders: "store_ok (renders rs)"
proof (induction rs rule: rev_induct)
  case Nil
  show ?case by (simp add: renders_def store_ok_initial)
next
  case (snoc r rs)
  then show ?case by (simp add: renders_def render_def store_ok_useEffectEvent)
qed

lemma useEffectEvent_handle_mounted:
  assumes "store_ok w" and "fibers w i = Some k"
  shows "fst (useEffectEvent i fn w) = callback_hook k"
  using useEffectEvent_update [OF assms(2) store_ok_old(5) [OF assms]] by simp

lemma useEffectEvent_fibers_self:
  assumes "store_ok w"
  shows "handle_of (snd (useEffectEvent i fn w)) i = Some (fst (useEffectEvent i fn w))"
proof (cases "fibers w i")
  case None
  show ?thesis by (simp add: useEffectEvent_mount [OF None] handle_of_def)
next
  case (Some k)
  show ?thesis
    by (simp add: useEffectEvent_update [OF Some store_ok_old(5) [OF assms Some]] handle_of_def)
qed

lemma useEffectEvent_fibers_other:
  assumes "j \<noteq> i"
  shows "fibers (snd (useEffectEvent i fn w)) j = fibers w j"
  using assms by (simp add: useEffectEvent_def useRef_def useCallback_def Let_def split: prod.splits)

lemma useEffectEvent_current_self:
  assumes "store_ok w"
  shows "current_fn (snd (useEffectEvent i fn w)) (fst (useEffectEvent i fn w)) = Some fn"
proof (cases "fibers w i")
  case None
  show ?thesis by (simp add: useEffectEvent_mount [OF None] current_fn_def)
next
  case (Some k)
  show ?thesis
    using store_ok_old(1,3) [OF assms Some]
    by (simp add: useEffectEvent_update [OF Some store_ok_old(5) [OF assms Some]] current_fn_def)
qed

lemma useEffectEvent_current_other:
  assumes "store_ok w" and "j \<noteq> i" and "fibers w j = Some l"
  shows "current_fn (snd (useEffectEvent i fn w)) (callback_hook l) = current_fn w (callback_hook l)"
proof (cases "fibers w i")
  case None
  show ?thesis
    using store_ok_old(1,3) [OF assms(1,3)]
    by (simp add: useEffectEvent_mount [OF None] current_fn_def nth_append)
next
  case (Some k)
  show ?thesis
    using store_ok_old(1,3) [OF assms(1,3)] store_ok_sep(1) [OF assms(1,2,3) Some]
    by (simp add: useEffectEvent_update [OF Some store_ok_old(5) [OF assms(1) Some]] current_fn_def)
qed


lemma renders_snoc: "renders (rs @ [(i, fn)]) = snd (useEffectEvent i fn (renders rs))"
  by (simp add: renders_def render_def)

lemma fibers_renders: "fibers (renders rs) i \<noteq> None \<longleftrightarrow> i \<in> fst ` set rs"
proof (induction rs rule: rev_induct)
  case Nil
  show ?case by (simp add: renders_def initial_def)
next
  case (snoc r rs)
  obtain j fn where r: "r = (j, fn)" by (cases r)
  show ?case
  proof (cases "i = j")
    case True
    have "handle_of (renders (rs @ [r])) i \<noteq> None"
      unfolding r renders_snoc True
      by (simp add: useEffectEvent_fibers_self [OF store_ok_renders])
    then show ?thesis using True r by (auto simp: handle_of_def)
  next
    case False
    then show ?thesis using snoc r by (simp add: renders_snoc useEffectEvent_fibers_other)
  qed
qed

lemma current_renders:
  assumes "fibers (renders rs) i = Some k"
  shows "current_fn (renders rs) (callback_hook k) = map_of (rev rs) i"
  using assms
proof (induction rs arbitrary: k rule: rev_induct)
  case Nil
  then show ?case by (simp add: renders_def initial_def)
next
  case (snoc r rs)
  obtain j fn where r: "r = (j, fn)" by (cases r)
  show ?case
  proof (cases "i = j")
    case True
    have "handle_of (renders (rs @ [r])) i = Some (fst (useEffectEvent j fn (renders rs)))"
      unfolding r renders_snoc True
      by (rule useEffectEvent_fibers_self [OF store_ok_renders])
    with snoc.prems have "callback_hook k = fst (useEffectEvent j fn (renders rs))"
      by (simp add: handle_of_def)
    then show ?thesis
      using True r by (simp add: renders_snoc useEffectEvent_current_self [OF store_ok_renders])
  next
    case False
    with snoc.prems r have old: "fibers (renders rs) i = Some k"
      by (simp add: renders_snoc useEffectEvent_fibers_other)
    show ?thesis
      using False r snoc.IH [OF old]
      by (simp add: renders_snoc useEffectEvent_current_other [OF store_ok_renders False old])
  qed
qed


lemma renders_append: "renders (rs @ later) = foldl render (renders rs) later"
  by (simp add: renders_def)

lemma handle_stable:
  assumes "handle_of (renders rs) i = Some h"
  shows "handle_of (renders (rs @ later)) i = Some h"
proof (induction later rule: rev_induct)
  case Nil
  show ?case using assms by simp
next
  case (snoc r later)
  obtain j fn where r: "r = (j, fn)" by (cases r)
  from snoc obtain k where k: "fibers (renders (rs @ later)) i = Some k" "callback_hook k = h"
    by (auto simp: handle_of_def)
  have eq: "renders (rs @ later @ [r]) = snd (useEffectEvent j fn (renders (rs @ later)))"
    using renders_snoc [of "rs @ later" j fn] r by simp
  show ?case
  proof (cases "j = i")
    case True
    show ?thesis
      unfolding eq True
      using useEffectEvent_fibers_self [OF store_ok_renders, of i fn "rs @ later"]
        useEffectEvent_handle_mounted [OF store_ok_renders k(1), of fn] k(2)
      by simp
  next
    case False
    then have "i \<noteq> j" by simp
    then show ?thesis
      unfolding eq handle_of_def using k
      by (simp add: useEffectEvent_fibers_other)
  qed
qed

lemma current_handle:
  assumes "handle_of (renders rs) i = Some h"
  shows "current_fn (renders rs) h = map_of (rev rs) i"
  using assms current_renders by (auto simp: handle_of_def)

lemma invoke_call:
  "current_fn w h = Some f \<Longrightarrow> invoke w h args = call f args"
  by (simp add: invoke_def call_def)


lemma handle_returned:
  assumes "handle_of (renders rs) i = Some h"
  shows "fst (useEffectEvent i fn (renders rs)) = h"
proof -
  from assms obtain k where k: "fibers (renders rs) i = Some k" "callback_hook k = h"
    by (auto simp: handle_of_def)
  show ?thesis using useEffectEvent_handle_mounted [OF store_ok_renders k(1), of fn] k(2) by simp
qed

lemma fibers_kept:
  assumes "j \<notin> fst ` set later" and "fibers (renders rs) j = Some l"
  shows "fibers (renders (rs @ later)) j = Some l"
  using assms(1)
proof (induction later rule: rev_induct)
  case Nil
  show ?case using assms(2) by simp
next
  case (snoc r later)
  obtain i fn where r: "r = (i, fn)" by (cases r)
  have "renders (rs @ later @ [r]) = snd (useEffectEvent i fn (renders (rs @ later)))"
    using renders_snoc [of "rs @ later" i fn] r by simp
  then show ?case using snoc r by (simp add: useEffectEvent_fibers_other)
qed

lemmas eval_defs = renders_def render_def initial_def useEffectEvent_def useRef_def
  useCallback_def current_fn_def invoke_def call_def handle_of_def latest_def Let_def

subsection \<open>Freshness\<close>

text \<open>
  Claim C1. Instance \<open>i\<close> constructs with \<open>fnA\<close> after any history and keeps the
  handle \<open>h\<close>; whatever renders follow (of this or of other instances), once \<open>i\<close>
  reconstructs with \<open>fnB\<close> the same handle \<open>h\<close> resolves to \<open>fnB\<close> and invoking it
  gives what \<open>fnB\<close> gives. The cell already holds the supplied callable in the store
  each call returns: the assignment is part of the call, not deferred. The concrete
  case: construct with \<open>() => 'A'\<close>, keep \<open>H\<close>, construct with \<open>() => 'B'\<close>, and
  \<open>H()\<close> is \<open>'B'\<close>.
\<close>

theorem freshness_after_reconstruction:
  "(let (h, w1) = useEffectEvent i fnA (renders rs);
        w2 = snd (useEffectEvent i fnB (foldl render w1 later))
    in current_fn w1 h = Some fnA \<and> current_fn w2 h = Some fnB \<and>
       invoke w2 h args = call fnB args) \<and>
   invoke (snd (useEffectEvent 0 (\<lambda>_. Inr ''B'') (snd (useEffectEvent 0 (\<lambda>_. Inr ''A'') initial))))
      (fst (useEffectEvent 0 (\<lambda>_. Inr ''A'') (initial :: (unit, unit, string) react))) []
     = Returned ''B''"
proof -
  let ?h = "fst (useEffectEvent i fnA (renders rs))"
  let ?rs1 = "rs @ [(i, fnA)]"
  have w1: "snd (useEffectEvent i fnA (renders rs)) = renders ?rs1"
    by (simp add: renders_snoc)
  have h1: "handle_of (renders ?rs1) i = Some ?h"
    unfolding renders_snoc by (rule useEffectEvent_fibers_self [OF store_ok_renders])
  have a: "current_fn (renders ?rs1) ?h = Some fnA"
    using current_handle [OF h1] by simp
  have w2: "snd (useEffectEvent i fnB (foldl render (renders ?rs1) later))
              = renders (?rs1 @ later @ [(i, fnB)])"
    using renders_snoc [of "?rs1 @ later" i fnB] by (simp add: renders_append)
  have h2: "handle_of (renders (?rs1 @ later @ [(i, fnB)])) i = Some ?h"
    by (rule handle_stable [OF h1])
  have b: "current_fn (renders (?rs1 @ later @ [(i, fnB)])) ?h = Some fnB"
    using current_handle [OF h2] by simp
  have general: "(let (h, w1) = useEffectEvent i fnA (renders rs);
        w2 = snd (useEffectEvent i fnB (foldl render w1 later))
    in current_fn w1 h = Some fnA \<and> current_fn w2 h = Some fnB \<and>
       invoke w2 h args = call fnB args)"
    using a b invoke_call [OF b] by (simp add: case_prod_unfold Let_def w1 w2)
  have example:
    "invoke (snd (useEffectEvent 0 (\<lambda>_. Inr ''B'') (snd (useEffectEvent 0 (\<lambda>_. Inr ''A'') initial))))
      (fst (useEffectEvent 0 (\<lambda>_. Inr ''A'') (initial :: (unit, unit, string) react))) []
     = Returned ''B''"
    by (simp add: eval_defs)
  show ?thesis using general example by blast
qed

subsection \<open>Identity of the handle\<close>

text \<open>
  Claim C2. The handles returned to one instance by three constructions, with any
  renders in between, are the same closure object. A call by an instance that is already
  mounted returns the callback it holds; only a call by an instance not yet mounted
  returns a closure whose identity no mounted instance has.
\<close>

theorem handle_identity_stable:
  "(let (h1, w1) = useEffectEvent i fnA (renders rs);
        (h2, w2) = useEffectEvent i fnB (foldl render w1 later1);
        (h3, w3) = useEffectEvent i fnC (foldl render w2 later2)
    in h1 = h2 \<and> h2 = h3) \<and>
   (\<forall>k. fibers (renders rs) i = Some k \<longrightarrow>
      fst (useEffectEvent i fnA (renders rs)) = callback_hook k) \<and>
   (fibers (renders rs) i = None \<longrightarrow>
      (\<forall>j l. fibers (renders rs) j = Some l \<longrightarrow>
         closure_id (callback_hook l) \<noteq> closure_id (fst (useEffectEvent i fnA (renders rs)))))"
proof -
  let ?h = "fst (useEffectEvent i fnA (renders rs))"
  let ?rs1 = "rs @ [(i, fnA)]"
  let ?rs2 = "?rs1 @ later1 @ [(i, fnB)]"
  have w1: "snd (useEffectEvent i fnA (renders rs)) = renders ?rs1"
    by (simp add: renders_snoc)
  have h1: "handle_of (renders ?rs1) i = Some ?h"
    unfolding renders_snoc by (rule useEffectEvent_fibers_self [OF store_ok_renders])
  have m1: "handle_of (renders (?rs1 @ later1)) i = Some ?h"
    by (rule handle_stable [OF h1])
  have e2: "fst (useEffectEvent i fnB (renders (?rs1 @ later1))) = ?h"
    by (rule handle_returned [OF m1])
  have w2: "snd (useEffectEvent i fnB (renders (?rs1 @ later1))) = renders ?rs2"
    using renders_snoc [of "?rs1 @ later1" i fnB] by simp
  have m2: "handle_of (renders (?rs2 @ later2)) i = Some ?h"
    using handle_stable [OF h1, of "later1 @ [(i, fnB)] @ later2"] by simp
  have e3: "fst (useEffectEvent i fnC (renders (?rs2 @ later2))) = ?h"
    by (rule handle_returned [OF m2])
  have A: "(let (h1, w1) = useEffectEvent i fnA (renders rs);
        (h2, w2) = useEffectEvent i fnB (foldl render w1 later1);
        (h3, w3) = useEffectEvent i fnC (foldl render w2 later2)
    in h1 = h2 \<and> h2 = h3)"
    using e2 e3 w2 by (simp add: case_prod_unfold Let_def w1 renders_append [symmetric])
  have B: "\<forall>k. fibers (renders rs) i = Some k \<longrightarrow> ?h = callback_hook k"
    using useEffectEvent_handle_mounted [OF store_ok_renders] by blast
  have C: "fibers (renders rs) i = None \<longrightarrow>
      (\<forall>j l. fibers (renders rs) j = Some l \<longrightarrow> closure_id (callback_hook l) \<noteq> closure_id ?h)"
  proof (intro impI allI)
    fix j l assume n: "fibers (renders rs) i = None" and l: "fibers (renders rs) j = Some l"
    show "closure_id (callback_hook l) \<noteq> closure_id ?h"
      using store_ok_old(4) [OF store_ok_renders l] by (simp add: useEffectEvent_mount [OF n])
  qed
  show ?thesis using A B C by blast
qed

theorem handle_identity_stable_witness:
  "fibers (renders [(0, \<lambda>_. Inr (1::nat))] :: (unit, unit, nat) react) 0 \<noteq> None \<and>
   fst (useEffectEvent 0 (\<lambda>_. Inr 2) (renders [(0, \<lambda>_. Inr (1::nat))] :: (unit, unit, nat) react))
     = \<lparr>closure_id = 0, captured_ref = 0\<rparr> \<and>
   fibers (renders [(0, \<lambda>_. Inr (1::nat))] :: (unit, unit, nat) react) 1 = None \<and>
   closure_id (fst (useEffectEvent 1 (\<lambda>_. Inr 2)
      (renders [(0, \<lambda>_. Inr (1::nat))] :: (unit, unit, nat) react))) \<noteq> 0"
  using handle_identity_stable
          [of 0 "\<lambda>_. Inr 2" "[(0, \<lambda>_. Inr (1::nat))] :: (nat \<times> (unit, unit, nat) callable) list"]
        handle_identity_stable
          [of 1 "\<lambda>_. Inr 2" "[(0, \<lambda>_. Inr (1::nat))] :: (nat \<times> (unit, unit, nat) callable) list"]
  by (simp add: eval_defs)

subsection \<open>Passthrough of arguments, results and errors\<close>

text \<open>
  Claim C3. After instance \<open>i\<close> constructs with \<open>fn\<close>, and for as long as it does not
  reconstruct (other instances may render), invoking the handle with \<open>args\<close> is calling
  \<open>fn\<close> with \<open>args\<close>: the result \<open>fn\<close> returns is returned, the error \<open>fn\<close> raises
  is raised unchanged, and the invocation never fails with an error of the hook's own.
\<close>

theorem invoke_passthrough:
  "(let (h, w) = useEffectEvent i fn (renders rs);
        w' = foldl render w later
    in (i \<notin> fst ` set later \<longrightarrow>
        invoke w' h args = call fn args \<and>
        (\<forall>e. fn args = Inl e \<longrightarrow> invoke w' h args = Threw e) \<and>
        (\<forall>r. fn args = Inr r \<longrightarrow> invoke w' h args = Returned r) \<and>
        invoke w' h args \<noteq> NotAFunction))"
proof -
  let ?h = "fst (useEffectEvent i fn (renders rs))"
  let ?rs1 = "rs @ [(i, fn)]"
  have w1: "snd (useEffectEvent i fn (renders rs)) = renders ?rs1"
    by (simp add: renders_snoc)
  have h1: "handle_of (renders ?rs1) i = Some ?h"
    unfolding renders_snoc by (rule useEffectEvent_fibers_self [OF store_ok_renders])
  have h2: "handle_of (renders (?rs1 @ later)) i = Some ?h"
    by (rule handle_stable [OF h1])
  have "invoke (renders (?rs1 @ later)) ?h args = call fn args" if "i \<notin> fst ` set later"
  proof -
    have "map_of (rev later) i = None" using that by (simp add: map_of_eq_None_iff)
    then have "current_fn (renders (?rs1 @ later)) ?h = Some fn"
      using current_handle [OF h2] by (simp add: map_add_def)
    then show ?thesis by (rule invoke_call)
  qed
  then show ?thesis
    by (auto simp: case_prod_unfold Let_def w1 renders_append [symmetric] call_def
             split: sum.splits)
qed

theorem invoke_passthrough_witness:
  "invoke (snd (useEffectEvent 0 add2 initial)) (fst (useEffectEvent 0 add2 initial)) [2, 3]
     = Returned 5 \<and>
   invoke (snd (useEffectEvent 0 (\<lambda>_. Inl ''E'') initial))
      (fst (useEffectEvent 0 (\<lambda>_. Inl ''E'') (initial :: (unit, string, unit) react))) []
     = Threw ''E''"
  using invoke_passthrough [of 0 add2 "[]" "[]" "[2, 3]"]
        invoke_passthrough [of 0 "\<lambda>_. Inl ''E'' :: string + unit" "[]" "[]" "[] :: unit list"]
  by (simp add: eval_defs add2_def)

subsection \<open>Isolation of instances\<close>

text \<open>
  Claim C4. Let instance \<open>j\<close> be mounted with hook state \<open>l\<close>. Whatever constructions and
  reconstructions the other instances perform (\<open>later\<close> holds no render of \<open>j\<close>), the hook
  state of \<open>j\<close> is the same, its handle resolves to the same callable and invoking it
  gives the same outcome; and every other mounted instance has a handle and a cell of
  its own, different from those of \<open>j\<close>.
\<close>

theorem instances_isolated:
  assumes "j \<notin> fst ` set later" and "fibers (renders rs) j = Some l"
  shows "fibers (renders (rs @ later)) j = Some l \<and>
    current_fn (renders (rs @ later)) (callback_hook l) = current_fn (renders rs) (callback_hook l) \<and>
    invoke (renders (rs @ later)) (callback_hook l) args
      = invoke (renders rs) (callback_hook l) args \<and>
    (\<forall>i k. i \<noteq> j \<longrightarrow> fibers (renders (rs @ later)) i = Some k \<longrightarrow>
       closure_id (callback_hook k) \<noteq> closure_id (callback_hook l) \<and>
       captured_ref (callback_hook k) \<noteq> captured_ref (callback_hook l) \<and>
       ref_hook k \<noteq> ref_hook l)"
proof -
  have f: "fibers (renders (rs @ later)) j = Some l"
    by (rule fibers_kept [OF assms])
  have n: "map_of (rev later) j = None" using assms(1) by (simp add: map_of_eq_None_iff)
  have c: "current_fn (renders (rs @ later)) (callback_hook l)
             = current_fn (renders rs) (callback_hook l)"
    using current_renders [OF f] current_renders [OF assms(2)] n by (simp add: map_add_def)
  have v: "invoke (renders (rs @ later)) (callback_hook l) args
             = invoke (renders rs) (callback_hook l) args"
    using c by (simp add: invoke_def)
  have d: "closure_id (callback_hook k) \<noteq> closure_id (callback_hook l) \<and>
           captured_ref (callback_hook k) \<noteq> captured_ref (callback_hook l) \<and>
           ref_hook k \<noteq> ref_hook l"
    if a: "i \<noteq> j" "fibers (renders (rs @ later)) i = Some k" for i k
    using store_ok_sep [OF store_ok_renders a(1) a(2) f]
      store_ok_old(3) [OF store_ok_renders a(2)] store_ok_old(3) [OF store_ok_renders f]
    by simp
  show ?thesis using f c v d by blast
qed

theorem instances_isolated_witness:
  "invoke (renders ([(1, \<lambda>_. Inr ''two'')] @ [(0, \<lambda>_. Inr ''A''), (0, \<lambda>_. Inr ''B'')])
            :: (unit, unit, string) react)
      \<lparr>closure_id = 0, captured_ref = 0\<rparr> []
     = Returned ''two'' \<and>
   invoke (renders ([(1, \<lambda>_. Inr ''two'')] @ [(0, \<lambda>_. Inr ''A''), (0, \<lambda>_. Inr ''B'')])
            :: (unit, unit, string) react)
      \<lparr>closure_id = 1, captured_ref = 1\<rparr> []
     = Returned ''B''"
proof -
  let ?rs = "[(1, \<lambda>_. Inr ''two'')] :: (nat \<times> (unit, unit, string) callable) list"
  let ?later = "[(0, \<lambda>_. Inr ''A''), (0, \<lambda>_. Inr ''B'')]
       :: (nat \<times> (unit, unit, string) callable) list"
  let ?l = "\<lparr>ref_hook = 0, callback_hook = \<lparr>closure_id = 0, captured_ref = 0\<rparr>,
             callback_deps = []\<rparr>"
  have a: "1 \<notin> fst ` set ?later" by simp
  have b: "fibers (renders ?rs) 1 = Some ?l" by (simp add: eval_defs)
  show ?thesis
    using instances_isolated [OF a b, of "[]"] by (simp add: eval_defs)
qed

subsection \<open>The cell is never empty\<close>

text \<open>
  Claim C5. In the store reached by any history of renders, an instance is mounted
  exactly when it has constructed at least once; its cell then holds a callable, namely
  the one it passed most recently, so invoking its handle calls that callable and can
  never find an empty cell.
\<close>

theorem cell_never_empty:
  "(fibers (renders rs) i \<noteq> None \<longleftrightarrow> i \<in> fst ` set rs) \<and>
   (\<forall>k. fibers (renders rs) i = Some k \<longrightarrow>
      (\<exists>f. latest rs i = Some f \<and>
           ref_hook k < length (heap (renders rs)) \<and>
           heap (renders rs) ! ref_hook k = Some f \<and>
           current_fn (renders rs) (callback_hook k) = Some f \<and>
           invoke (renders rs) (callback_hook k) args = call f args \<and>
           invoke (renders rs) (callback_hook k) args \<noteq> NotAFunction))"
proof -
  have "\<exists>f. latest rs i = Some f \<and>
           ref_hook k < length (heap (renders rs)) \<and>
           heap (renders rs) ! ref_hook k = Some f \<and>
           current_fn (renders rs) (callback_hook k) = Some f \<and>
           invoke (renders rs) (callback_hook k) args = call f args \<and>
           invoke (renders rs) (callback_hook k) args \<noteq> NotAFunction"
    if k: "fibers (renders rs) i = Some k" for k
  proof -
    have r: "ref_hook k < length (heap (renders rs))"
      and c: "captured_ref (callback_hook k) = ref_hook k"
      using store_ok_old(1,3) [OF store_ok_renders k] by simp_all
    obtain f where f: "heap (renders rs) ! ref_hook k = Some f"
      using store_ok_old(2) [OF store_ok_renders k] by blast
    have cur: "current_fn (renders rs) (callback_hook k) = Some f"
      using r c f by (simp add: current_fn_def)
    have l: "latest rs i = Some f"
      using current_renders [OF k] cur by (simp add: latest_def)
    have "invoke (renders rs) (callback_hook k) args = call f args"
      by (rule invoke_call [OF cur])
    moreover have "call f args \<noteq> NotAFunction"
      by (simp add: call_def split: sum.splits)
    ultimately show ?thesis using l r f cur by simp
  qed
  then show ?thesis using fibers_renders [of rs i] by blast
qed

theorem cell_never_empty_witness:
  "fibers (renders [(0, \<lambda>_. Inr ''A''), (1, \<lambda>_. Inr ''C''), (0, \<lambda>_. Inr ''B'')]
      :: (unit, unit, string) react) 0
     = Some \<lparr>ref_hook = 0, callback_hook = \<lparr>closure_id = 0, captured_ref = 0\<rparr>,
             callback_deps = []\<rparr> \<and>
   invoke (renders [(0, \<lambda>_. Inr ''A''), (1, \<lambda>_. Inr ''C''), (0, \<lambda>_. Inr ''B'')]
      :: (unit, unit, string) react) \<lparr>closure_id = 0, captured_ref = 0\<rparr> []
     = Returned ''B''"
  using cell_never_empty
    [of "[(0, \<lambda>_. Inr ''A''), (1, \<lambda>_. Inr ''C''), (0, \<lambda>_. Inr ''B'')]
           :: (nat \<times> (unit, unit, string) callable) list" 0 "[]"]
  by (simp add: eval_defs)

subsection \<open>Reconstruction with the same callable\<close>


section \<open>Properties of the log sink\<close>

lemma slice_last_length: "length (slice_last n xs) = min n (length xs)"
  by (simp add: slice_last_def)

lemma slice_last_slice_last:
  assumes "m \<le> n"
  shows "slice_last m (slice_last n xs) = slice_last m xs"
proof -
  have "length xs - (length xs - n + m) + (length xs - n) = length xs - m"
    using assms by arith
  then show ?thesis by (simp add: slice_last_def)
qed

lemma slice_last_snoc: "slice_last (Suc n) (xs @ [x]) = slice_last n xs @ [x]"
  by (simp add: slice_last_def Suc_diff_le)

lemma slice_last_Nil_iff: "0 < n \<Longrightarrow> slice_last n xs = [] \<longleftrightarrow> xs = []"
  by (cases xs) (auto simp: slice_last_def)

lemma last_slice_last: "0 < n \<Longrightarrow> xs \<noteq> [] \<Longrightarrow> last (slice_last n xs) = last xs"
  by (simp add: slice_last_def last_drop)

lemma handleLog_last:
  "handleLog timestamp message prev =
     (if prev \<noteq> [] \<and> last prev = logWithTime timestamp message then prev
      else slice_last 20 prev @ [logWithTime timestamp message])"
  by (cases "prev = []") (simp_all add: handleLog_def last_conv_nth)

lemma remdups_adj_snoc:
  "remdups_adj (xs @ [x]) =
     (if xs \<noteq> [] \<and> last xs = x then remdups_adj xs else remdups_adj xs @ [x])"
  by (induction xs rule: remdups_adj.induct) (auto)

lemma logged_snoc:
  "logged (evs @ [(timestamp, message)]) = handleLog timestamp message (logged evs)"
  by (simp add: logged_def)

lemma logged_eq:
  "logged evs = slice_last 21 (remdups_adj (map (\<lambda>(t, m). logWithTime t m) evs))"
proof (induction evs rule: rev_induct)
  case Nil
  show ?case by (simp add: logged_def slice_last_def)
next
  case (snoc ev evs)
  obtain t m where ev: "ev = (t, m)" by (cases ev)
  let ?xs = "map (\<lambda>(t, m). logWithTime t m) evs"
  let ?ys = "remdups_adj ?xs"
  let ?x = "logWithTime t m"
  have ne: "slice_last 21 ?ys = [] \<longleftrightarrow> ?xs = []"
    by (simp add: slice_last_Nil_iff)
  have la: "last (slice_last 21 ?ys) = last ?xs" if "?xs \<noteq> []"
    using that by (simp add: last_slice_last)
  show ?case
  proof (cases "?xs \<noteq> [] \<and> last ?xs = ?x")
    case True
    then show ?thesis
      using snoc ne la unfolding ev logged_snoc handleLog_last
      by (simp add: remdups_adj_snoc)
  next
    case False
    have "slice_last 20 (slice_last 21 ?ys) @ [?x] = slice_last 21 (?ys @ [?x])"
      using slice_last_snoc [of 20 ?ys ?x] by (simp add: slice_last_slice_last)
    then show ?thesis
      using False snoc ne la unfolding ev logged_snoc handleLog_last
      by (auto simp: remdups_adj_snoc)
  qed
qed

lemma findIndex_from_at:
  "k < length xs \<Longrightarrow> P (xs ! k) \<Longrightarrow>
     findIndex_from i P xs = int (i + k) \<longleftrightarrow> (\<forall>m<k. \<not> P (xs ! m))"
proof (induction xs arbitrary: i k)
  case Nil
  then show ?case by simp
next
  case (Cons x xs)
  show ?case
  proof (cases k)
    case 0
    then show ?thesis using Cons.prems by simp
  next
    case (Suc k')
    show ?thesis
    proof (cases "P x")
      case True
      then show ?thesis using Suc by auto
    next
      case False
      have "findIndex_from (Suc i) P xs = int (Suc i + k') \<longleftrightarrow> (\<forall>m<k'. \<not> P (xs ! m))"
        using Cons.IH [of k' "Suc i"] Cons.prems Suc by simp
      moreover have "(\<forall>m<Suc k'. \<not> P ((x # xs) ! m)) \<longleftrightarrow> (\<forall>m<k'. \<not> P (xs ! m))"
        using False by (auto simp: less_Suc_eq_0_disj)
      ultimately show ?thesis using False Suc by simp
    qed
  qed
qed

lemma findIndex_keeps:
  "k < length xs \<Longrightarrow> findIndex (\<lambda>l. l = xs ! k) xs = int k \<longleftrightarrow> xs ! k \<notin> set (take k xs)"
  using findIndex_from_at [of k xs "\<lambda>l. l = xs ! k" 0]
  by (auto simp: findIndex_def in_set_conv_nth)

lemma map_filter_agree:
  "(\<And>x. x \<in> set xs \<Longrightarrow> P x = Q x \<and> f x = g x) \<Longrightarrow>
     map f (filter P xs) = map g (filter Q xs)"
  by (induction xs) auto

lemma enumerate_nth: "List.enumerate 0 xs = map (\<lambda>k. (k, xs ! k)) [0..<length xs]"
  using enumerate_map_upt [of 0 "(!) xs" "length xs"] by (simp add: map_nth)

lemma filter_first_occurrences:
  "map snd (filter (\<lambda>(index, log). findIndex (\<lambda>l. l = log) xs = int index) (List.enumerate 0 xs))
     = first_occurrences xs"
proof -
  have "map snd (filter (\<lambda>(index, log). findIndex (\<lambda>l. l = log) xs = int index) (List.enumerate 0 xs))
      = map ((!) xs) (filter (\<lambda>k. findIndex (\<lambda>l. l = xs ! k) xs = int k) [0..<length xs])"
    by (simp add: enumerate_nth filter_map comp_def)
  also have "\<dots> = map ((!) xs) (filter (\<lambda>k. xs ! k \<notin> set (take k xs)) [0..<length xs])"
    by (rule arg_cong [where f = "map ((!) xs)"], rule filter_cong) (auto simp: findIndex_keeps)
  also have "\<dots> = first_occurrences xs"
  proof (induction xs rule: rev_induct)
    case Nil
    show ?case by (simp add: first_occurrences_def)
  next
    case (snoc x xs)
    have "map ((!) (xs @ [x])) (filter (\<lambda>k. (xs @ [x]) ! k \<notin> set (take k (xs @ [x]))) [0..<length xs])
        = map ((!) xs) (filter (\<lambda>k. xs ! k \<notin> set (take k xs)) [0..<length xs])"
      by (rule map_filter_agree) (auto simp: nth_append)
    then show ?case using snoc by (auto simp: first_occurrences_def)
  qed
  finally show ?thesis .
qed


lemma handleLog_unchanged_iff:
  "handleLog timestamp message prev = prev \<longleftrightarrow>
     prev \<noteq> [] \<and> last prev = logWithTime timestamp message"
proof (cases "prev \<noteq> [] \<and> last prev = logWithTime timestamp message")
  case True
  then show ?thesis by (simp add: handleLog_last)
next
  case False
  have "slice_last 20 prev @ [logWithTime timestamp message] \<noteq> prev"
  proof
    assume eq: "slice_last 20 prev @ [logWithTime timestamp message] = prev"
    then have "prev \<noteq> []" by auto
    moreover have "last prev = logWithTime timestamp message"
      using arg_cong [OF eq, of last] by simp
    ultimately show False using False by simp
  qed
  then show ?thesis using False by (simp add: handleLog_last)
qed

text \<open>
  Claim C7, as stated, fails twice. Twenty-one different messages leave twenty-one
  entries in the buffer, not twenty. And of the three entries \<open>a\<close>, \<open>b\<close>, \<open>a\<close>, all
  retained by \<open>handleLog\<close>, the displayed list drops the second \<open>a\<close>, which is not a
  repeat of the entry just before it.
\<close>

theorem log_sink_counterexample:
  "length (logged (numbered 21)) = 21 \<and> \<not> length (logged (numbered 21)) \<le> 20 \<and>
   logged [(''10:00:00'', ''a''), (''10:00:00'', ''b''), (''10:00:00'', ''a'')]
     = [''[10:00:00] a'', ''[10:00:00] b'', ''[10:00:00] a''] \<and>
   uniqueLogs (logged [(''10:00:00'', ''a''), (''10:00:00'', ''b''), (''10:00:00'', ''a'')])
     = [''[10:00:00] a'', ''[10:00:00] b'']"
  by code_simp

text \<open>
  Claim C7, amended. The buffer after any sequence of appends is the last 21 of the
  formatted entries with immediate repetitions collapsed, so it holds at most 21
  entries: the newest one after at most 20 earlier ones. An append leaves the buffer
  unchanged exactly when the entry equals the buffer's last entry; otherwise the entry
  goes after the last 20. The displayed list is the last 15 of the buffer's entries
  after every repeat of an earlier buffer entry is removed, so it holds at most 15.
\<close>

theorem log_sink_bounds:
  "logged evs = slice_last 21 (remdups_adj (map (\<lambda>(t, m). logWithTime t m) evs)) \<and>
   length (logged evs) \<le> 21 \<and>
   (handleLog timestamp message prev = prev \<longleftrightarrow>
      prev \<noteq> [] \<and> last prev = logWithTime timestamp message) \<and>
   (handleLog timestamp message prev = prev \<or>
    handleLog timestamp message prev = slice_last 20 prev @ [logWithTime timestamp message]) \<and>
   uniqueLogs logs = slice_last 15 (first_occurrences logs) \<and>
   length (uniqueLogs logs) \<le> 15"
proof -
  have a: "logged evs = slice_last 21 (remdups_adj (map (\<lambda>(t, m). logWithTime t m) evs))"
    by (rule logged_eq)
  have b: "length (logged evs) \<le> 21"
    unfolding a by (simp add: slice_last_length)
  have c: "handleLog timestamp message prev = prev \<or>
    handleLog timestamp message prev = slice_last 20 prev @ [logWithTime timestamp message]"
    by (simp add: handleLog_def)
  have d: "uniqueLogs logs = slice_last 15 (first_occurrences logs)"
    by (simp add: uniqueLogs_def filter_first_occurrences)
  have e: "length (uniqueLogs logs) \<le> 15"
    unfolding d by (simp add: slice_last_length)
  show ?thesis using a b c d e handleLog_unchanged_iff by blast
qed

theorem log_sink_bounds_witness:
  "logged [(''10:00:00'', ''a''), (''10:00:00'', ''a''), (''10:00:01'', ''a'')]
     = [''[10:00:00] a'', ''[10:00:01] a''] \<and>
   handleLog ''10:00:00'' ''a'' [''[10:00:00] a''] = [''[10:00:00] a''] \<and>
   uniqueLogs [''x'', ''y'', ''x''] = [''x'', ''y'']"
  using log_sink_bounds
    [of "[(''10:00:00'', ''a''), (''10:00:00'', ''a''), (''10:00:01'', ''a'')]"
        "''10:00:00''" "''a''" "[''[10:00:00] a'']" "[''x'', ''y'', ''x'']"]
  by (simp add: logWithTime_def slice_last_def first_occurrences_def)

section \<open>Properties of the quiz component\<close>

subsection \<open>Double arithmetic on integers\<close>

lemma excess_bits_small: "n < 2 ^ 53 \<Longrightarrow> excess_bits n = 0"
  by (subst excess_bits.simps) simp

lemma to_double_small:
  assumes "\<bar>x\<bar> < 2 ^ 53"
  shows "to_double x = x"
proof -
  have n: "nat \<bar>x\<bar> < 2 ^ 53" using assms by (simp add: nat_less_iff)
  have "to_double x = sgn x * int (nat \<bar>x\<bar>)"
    by (simp add: to_double_def excess_bits_small [OF n] Let_def)
  also have "\<dots> = x" by (simp add: mult_sgn_abs)
  finally show ?thesis .
qed

lemma excess_bits_limit: "excess_bits 9007199254740992 = 1"
  by (subst excess_bits.simps, simp, subst excess_bits.simps, simp)


lemma to_double_limit: "to_double 9007199254740992 = 9007199254740992"
  by (simp add: to_double_def excess_bits_limit Let_def)

lemma js_add_one_exact:
  assumes "\<bar>x\<bar> < 2 ^ 53"
  shows "js_add x 1 = x + 1"
proof (cases "x + 1 = 9007199254740992")
  case True
  then show ?thesis by (simp add: js_add_def to_double_limit)
next
  case False
  then have "\<bar>x + 1\<bar> < 2 ^ 53" using assms by simp
  then show ?thesis by (simp add: js_add_def to_double_small)
qed


subsection \<open>What a step does to the store\<close>

lemma step_cases:
  "step members stringify (s, b) ev = (s', b') \<Longrightarrow>
     getItem_calls b' = getItem_calls b \<and>
     ((teamData s' = teamData s \<and> items b' = items b \<and> setItem_calls b' = setItem_calls b) \<or>
      (setItem_calls b' = setItem_calls b @ [(''thinkTankTeamData'', stringify (teamData s'))] \<and>
       items b' = (items b)(''thinkTankTeamData'' \<mapsto> stringify (teamData s'))))"
  by (cases ev)
     (auto simp: step_def handleAnswer_def handleAwardPoint_def nextQuestion_def resetQuiz_def
        resetAllTeamData_def setItem_def Let_def
        split: if_splits option.splits inherited.splits)

lemma run_snoc:
  "run members stringify sb (evs @ [ev]) = step members stringify (run members stringify sb evs) ev"
  by (simp add: run_def)

lemma play_snoc:
  "play members stringify sb (evs @ [ev]) = fire members stringify (play members stringify sb evs) ev"
  by (simp add: play_def)

lemma loadTeamData_calls:
  "getItem_calls (snd (loadTeamData members parse b)) = getItem_calls b @ [''thinkTankTeamData''] \<and>
   setItem_calls (snd (loadTeamData members parse b)) = setItem_calls b \<and>
   items (snd (loadTeamData members parse b)) = items b"
  by (simp add: loadTeamData_def getItem_def Let_def)

lemma loadTeamData_again:
  "items b1 = items b \<Longrightarrow>
     fst (loadTeamData members parse b1) = fst (loadTeamData members parse b)"
  by (simp add: loadTeamData_def getItem_def Let_def)

lemma mount_reads:
  "(\<forall>s0. fst (mount members parse b) = Inr s0 \<longrightarrow>
      getItem_calls (snd (mount members parse b)) = getItem_calls b @ [''thinkTankTeamData'']) \<and>
   (\<forall>e. fst (mount members parse b) = Inl e \<longrightarrow>
      getItem_calls (snd (mount members parse b))
        = getItem_calls b @ [''thinkTankTeamData'', ''thinkTankTeamData'']) \<and>
   setItem_calls (snd (mount members parse b)) = setItem_calls b \<and>
   items (snd (mount members parse b)) = items b"
proof -
  obtain r b1 where l1: "loadTeamData members parse b = (r, b1)"
    by (cases "loadTeamData members parse b")
  have c1: "getItem_calls b1 = getItem_calls b @ [''thinkTankTeamData'']"
    "setItem_calls b1 = setItem_calls b" "items b1 = items b"
    using loadTeamData_calls [of members parse b] l1 by simp_all
  show ?thesis
  proof (cases r)
    case (Inr data)
    then show ?thesis using l1 c1 by (simp add: mount_def Let_def)
  next
    case (Inl e)
    obtain r2 b2 where l2: "loadTeamData members parse b1 = (r2, b2)"
      by (cases "loadTeamData members parse b1")
    have c2: "getItem_calls b2 = getItem_calls b1 @ [''thinkTankTeamData'']"
      "setItem_calls b2 = setItem_calls b1" "items b2 = items b1"
      using loadTeamData_calls [of members parse b1] l2 by simp_all
    have "r2 = r" using loadTeamData_again [OF c1(3), of members parse] l1 l2 by simp
    then show ?thesis using Inl l1 l2 c1 c2 by (simp add: mount_def Let_def)
  qed
qed

lemma run_cases:
  "run members stringify (s, b) evs = (s', b') \<Longrightarrow>
     getItem_calls b' = getItem_calls b \<and>
     ((teamData s' = teamData s \<and> items b' = items b \<and> setItem_calls b' = setItem_calls b) \<or>
      (\<exists>earlier. setItem_calls b' =
           setItem_calls b @ earlier @ [(''thinkTankTeamData'', stringify (teamData s'))] \<and>
         fst ` set earlier \<subseteq> {''thinkTankTeamData''} \<and>
         items b' = (items b)(''thinkTankTeamData'' \<mapsto> stringify (teamData s'))))"
proof (induction evs arbitrary: s' b' rule: rev_induct)
  case Nil
  then show ?case by (simp add: run_def)
next
  case (snoc ev evs)
  obtain s1 b1 where mid: "run members stringify (s, b) evs = (s1, b1)"
    by (cases "run members stringify (s, b) evs")
  have st: "step members stringify (s1, b1) ev = (s', b')"
    using snoc.prems mid by (simp add: run_snoc)
  note ih = snoc.IH [OF mid]
  note sc = step_cases [OF st]
  have reads: "getItem_calls b' = getItem_calls b" using ih sc by simp
  from sc have "(teamData s' = teamData s1 \<and> items b' = items b1 \<and> setItem_calls b' = setItem_calls b1) \<or>
      (setItem_calls b' = setItem_calls b1 @ [(''thinkTankTeamData'', stringify (teamData s'))] \<and>
       items b' = (items b1)(''thinkTankTeamData'' \<mapsto> stringify (teamData s')))" by blast
  then show ?case
  proof
    assume same: "teamData s' = teamData s1 \<and> items b' = items b1 \<and> setItem_calls b' = setItem_calls b1"
    then show ?thesis using ih reads by auto
  next
    assume wr: "setItem_calls b' = setItem_calls b1 @ [(''thinkTankTeamData'', stringify (teamData s'))] \<and>
       items b' = (items b1)(''thinkTankTeamData'' \<mapsto> stringify (teamData s'))"
    from ih have "(teamData s1 = teamData s \<and> items b1 = items b \<and> setItem_calls b1 = setItem_calls b) \<or>
      (\<exists>earlier. setItem_calls b1 =
           setItem_calls b @ earlier @ [(''thinkTankTeamData'', stringify (teamData s1))] \<and>
         fst ` set earlier \<subseteq> {''thinkTankTeamData''} \<and>
         items b1 = (items b)(''thinkTankTeamData'' \<mapsto> stringify (teamData s1)))" by blast
    then have "\<exists>earlier. setItem_calls b' =
           setItem_calls b @ earlier @ [(''thinkTankTeamData'', stringify (teamData s'))] \<and>
         fst ` set earlier \<subseteq> {''thinkTankTeamData''} \<and>
         items b' = (items b)(''thinkTankTeamData'' \<mapsto> stringify (teamData s'))"
    proof
      assume "teamData s1 = teamData s \<and> items b1 = items b \<and> setItem_calls b1 = setItem_calls b"
      then show ?thesis using wr by (intro exI [of _ "[]"]) simp
    next
      assume "\<exists>earlier. setItem_calls b1 =
           setItem_calls b @ earlier @ [(''thinkTankTeamData'', stringify (teamData s1))] \<and>
         fst ` set earlier \<subseteq> {''thinkTankTeamData''} \<and>
         items b1 = (items b)(''thinkTankTeamData'' \<mapsto> stringify (teamData s1))"
      then obtain earlier where e: "setItem_calls b1 =
           setItem_calls b @ earlier @ [(''thinkTankTeamData'', stringify (teamData s1))]"
         "fst ` set earlier \<subseteq> {''thinkTankTeamData''}"
         "items b1 = (items b)(''thinkTankTeamData'' \<mapsto> stringify (teamData s1))" by blast
      show ?thesis
        using wr e
        by (intro exI [of _ "earlier @ [(''thinkTankTeamData'', stringify (teamData s1))]"]) simp
    qed
    then show ?thesis using reads by blast
  qed
qed

lemma reset_writes:
  "resetAllTeamData members stringify True (s, b) =
     (s\<lparr>teamData := initialTeamData members\<rparr>,
      setItem ''thinkTankTeamData'' (stringify (initialTeamData members)) b)"
  by (simp add: resetAllTeamData_def Let_def)

lemma award_writes:
  assumes "\<not> truthy (awardedForQuestion s (currentQuestion s))" and "awardMember s \<noteq> []"
    and "teamData s (awardMember s) = Some member"
  shows "handleAwardPoint stringify now (s, b) =
     (s\<lparr>teamData := (teamData s)(awardMember s \<mapsto>
            member\<lparr>questionsAnswered := js_add (questionsAnswered member) 1,
                   correctAnswers := js_add (correctAnswers member) 1,
                   totalBonus := js_add (totalBonus member) 1,
                   lastActivity := now\<rparr>),
         awardedForQuestion := (awardedForQuestion s)(currentQuestion s \<mapsto> awardMember s)\<rparr>,
      setItem ''thinkTankTeamData''
        (stringify ((teamData s)(awardMember s \<mapsto>
            member\<lparr>questionsAnswered := js_add (questionsAnswered member) 1,
                   correctAnswers := js_add (correctAnswers member) 1,
                   totalBonus := js_add (totalBonus member) 1,
                   lastActivity := now\<rparr>))) b)"
  using assms by (simp add: handleAwardPoint_def Let_def)

lemmas quiz_defs = step_def fire_def offered_def run_def play_def handleAnswer_def
  handleAwardPoint_def nextQuestion_def resetQuiz_def resetAllTeamData_def setItem_def getItem_def
  mount_def loadTeamData_def initialTeamData_def truthy_def array_set_def answered_correctly_def
  calculateScore_def matching_indices_def quizQuestions_def demo_stringify_def demo_browser_def
  demo_quiz_def inherited_property_def builtin_keys_def Let_def

subsection \<open>Persistence of the team scores\<close>

text \<open>
  Claim C8, as stated, fails where the saved text does not parse: the initialiser
  throws, React runs it a second time, and the store is read twice, not once.
\<close>

theorem persistence_counterexample:
  "fst (mount [''Ann'', ''Bob''] (\<lambda>_. None)
          (demo_browser\<lparr>items := [''thinkTankTeamData'' \<mapsto> ''{'']\<rparr>)) = Inl SyntaxError \<and>
   getItem_calls (snd (mount [''Ann'', ''Bob''] (\<lambda>_. None)
          (demo_browser\<lparr>items := [''thinkTankTeamData'' \<mapsto> ''{'']\<rparr>)))
     = [''thinkTankTeamData'', ''thinkTankTeamData'']"
  by (simp add: mount_def loadTeamData_def getItem_def demo_browser_def Let_def)

text \<open>
  Claim C8, amended. The store is read only by the state initialiser at startup, with
  the key \<open>thinkTankTeamData\<close>: once when the component mounts, twice when the saved
  text does not parse and the component fails to mount; mounting writes nothing and no
  handler reads. A confirmed reset stores the serialisation of the whole fresh map under
  that key, and an award to a member of the map stores the serialisation of the whole
  updated map. Every handler call either leaves the team data and the store as they
  were or makes one such whole-map write; after any sequence of calls the store holds
  the serialisation of the current map, unless nothing was written.
\<close>

theorem persistence_snapshot:
  "((\<forall>s0. fst (mount members parse b) = Inr s0 \<longrightarrow>
       getItem_calls (snd (mount members parse b)) = getItem_calls b @ [''thinkTankTeamData'']) \<and>
    (\<forall>e. fst (mount members parse b) = Inl e \<longrightarrow>
       getItem_calls (snd (mount members parse b))
         = getItem_calls b @ [''thinkTankTeamData'', ''thinkTankTeamData'']) \<and>
    setItem_calls (snd (mount members parse b)) = setItem_calls b \<and>
    items (snd (mount members parse b)) = items b) \<and>
   (let (s', b') = resetAllTeamData members stringify True (s, b)
    in teamData s' = initialTeamData members \<and>
       getItem_calls b' = getItem_calls b \<and>
       setItem_calls b' =
         setItem_calls b @ [(''thinkTankTeamData'', stringify (initialTeamData members))] \<and>
       items b' = (items b)(''thinkTankTeamData'' \<mapsto> stringify (initialTeamData members))) \<and>
   (\<forall>member. \<not> truthy (awardedForQuestion s (currentQuestion s)) \<and> awardMember s \<noteq> [] \<and>
       teamData s (awardMember s) = Some member \<longrightarrow>
      (let (s', b') = handleAwardPoint stringify now (s, b)
       in teamData s' = (teamData s)(awardMember s \<mapsto>
            member\<lparr>questionsAnswered := js_add (questionsAnswered member) 1,
                   correctAnswers := js_add (correctAnswers member) 1,
                   totalBonus := js_add (totalBonus member) 1,
                   lastActivity := now\<rparr>) \<and>
          getItem_calls b' = getItem_calls b \<and>
          setItem_calls b' =
            setItem_calls b @ [(''thinkTankTeamData'', stringify (teamData s'))] \<and>
          items b' = (items b)(''thinkTankTeamData'' \<mapsto> stringify (teamData s')))) \<and>
   (let (s', b') = step members stringify (s, b) ev
    in getItem_calls b' = getItem_calls b \<and>
       ((teamData s' = teamData s \<and> items b' = items b \<and> setItem_calls b' = setItem_calls b) \<or>
        (setItem_calls b' = setItem_calls b @ [(''thinkTankTeamData'', stringify (teamData s'))] \<and>
         items b' = (items b)(''thinkTankTeamData'' \<mapsto> stringify (teamData s'))))) \<and>
   (let (s', b') = run members stringify (s, b) evs
    in getItem_calls b' = getItem_calls b \<and>
       ((teamData s' = teamData s \<and> items b' = items b \<and> setItem_calls b' = setItem_calls b) \<or>
        (\<exists>earlier. setItem_calls b' =
             setItem_calls b @ earlier @ [(''thinkTankTeamData'', stringify (teamData s'))] \<and>
           fst ` set earlier \<subseteq> {''thinkTankTeamData''} \<and>
           items b' = (items b)(''thinkTankTeamData'' \<mapsto> stringify (teamData s')))))"
proof -
  obtain s' b' where r: "run members stringify (s, b) evs = (s', b')"
    by (cases "run members stringify (s, b) evs")
  obtain s1 b1 where st: "step members stringify (s, b) ev = (s1, b1)"
    by (cases "step members stringify (s, b) ev")
  have reset: "(let (s', b') = resetAllTeamData members stringify True (s, b)
    in teamData s' = initialTeamData members \<and>
       getItem_calls b' = getItem_calls b \<and>
       setItem_calls b' =
         setItem_calls b @ [(''thinkTankTeamData'', stringify (initialTeamData members))] \<and>
       items b' = (items b)(''thinkTankTeamData'' \<mapsto> stringify (initialTeamData members)))"
    by (simp add: reset_writes setItem_def)
  have award: "(let (s', b') = handleAwardPoint stringify now (s, b)
       in teamData s' = (teamData s)(awardMember s \<mapsto>
            member\<lparr>questionsAnswered := js_add (questionsAnswered member) 1,
                   correctAnswers := js_add (correctAnswers member) 1,
                   totalBonus := js_add (totalBonus member) 1,
                   lastActivity := now\<rparr>) \<and>
          getItem_calls b' = getItem_calls b \<and>
          setItem_calls b' =
            setItem_calls b @ [(''thinkTankTeamData'', stringify (teamData s'))] \<and>
          items b' = (items b)(''thinkTankTeamData'' \<mapsto> stringify (teamData s')))"
    if a: "\<not> truthy (awardedForQuestion s (currentQuestion s)) \<and> awardMember s \<noteq> [] \<and>
       teamData s (awardMember s) = Some member" for member
  proof -
    have w: "handleAwardPoint stringify now (s, b) =
     (s\<lparr>teamData := (teamData s)(awardMember s \<mapsto>
            member\<lparr>questionsAnswered := js_add (questionsAnswered member) 1,
                   correctAnswers := js_add (correctAnswers member) 1,
                   totalBonus := js_add (totalBonus member) 1,
                   lastActivity := now\<rparr>),
         awardedForQuestion := (awardedForQuestion s)(currentQuestion s \<mapsto> awardMember s)\<rparr>,
      setItem ''thinkTankTeamData''
        (stringify ((teamData s)(awardMember s \<mapsto>
            member\<lparr>questionsAnswered := js_add (questionsAnswered member) 1,
                   correctAnswers := js_add (correctAnswers member) 1,
                   totalBonus := js_add (totalBonus member) 1,
                   lastActivity := now\<rparr>))) b)"
      using a by (intro award_writes) simp_all
    show ?thesis unfolding w by (simp add: setItem_def)
  qed
  show ?thesis
    using mount_reads [of members parse b] run_cases [OF r] step_cases [OF st] reset award
    by (simp add: r st)
qed

theorem persistence_snapshot_witness:
  "fst (mount [''Ann'', ''Bob''] (\<lambda>_. None) demo_browser) = Inr demo_quiz \<and>
   getItem_calls (snd (mount [''Ann'', ''Bob''] (\<lambda>_. None) demo_browser))
     = [''thinkTankTeamData''] \<and>
   getItem_calls (snd (mount [''Ann'', ''Bob''] (\<lambda>_. None)
          (demo_browser\<lparr>items := [''thinkTankTeamData'' \<mapsto> ''{'']\<rparr>)))
     = [''thinkTankTeamData'', ''thinkTankTeamData''] \<and>
   setItem_calls (snd (handleAwardPoint demo_stringify ''noon''
      (demo_quiz\<lparr>awardMember := ''Ann''\<rparr>, demo_browser)))
     = [(''thinkTankTeamData'', ''{Ann:+}'')] \<and>
   setItem_calls (snd (run [''Ann'', ''Bob''] demo_stringify (demo_quiz, demo_browser)
      [HandleAnswer 1, SetAwardMember ''Ann'', HandleAwardPoint ''noon'',
       ResetAllTeamData True]))
     = [(''thinkTankTeamData'', ''{Ann:+}''), (''thinkTankTeamData'', ''{Ann:0}'')]"
proof -
  have one: "js_add 0 1 = 1"
    using js_add_one_exact [of 0] by simp
  have m: "fst (mount [''Ann'', ''Bob''] (\<lambda>_. None) demo_browser) = Inr demo_quiz"
    by (simp add: mount_def loadTeamData_def getItem_def demo_browser_def demo_quiz_def Let_def)
  have f: "fst (mount [''Ann'', ''Bob''] (\<lambda>_. None)
          (demo_browser\<lparr>items := [''thinkTankTeamData'' \<mapsto> ''{'']\<rparr>)) = Inl SyntaxError"
    by (simp add: mount_def loadTeamData_def getItem_def demo_browser_def Let_def)
  have g: "\<not> truthy (awardedForQuestion (demo_quiz\<lparr>awardMember := ''Ann''\<rparr>)
                 (currentQuestion (demo_quiz\<lparr>awardMember := ''Ann''\<rparr>))) \<and>
      awardMember (demo_quiz\<lparr>awardMember := ''Ann''\<rparr>) \<noteq> [] \<and>
      teamData (demo_quiz\<lparr>awardMember := ''Ann''\<rparr>)
        (awardMember (demo_quiz\<lparr>awardMember := ''Ann''\<rparr>))
        = Some \<lparr>name = ''Ann'', totalBonus = 0, questionsAnswered = 0, correctAnswers = 0,
                lastActivity = ''Never''\<rparr>"
    by (simp add: demo_quiz_def initialTeamData_def truthy_def)
  have r: "setItem_calls (snd (run [''Ann'', ''Bob''] demo_stringify (demo_quiz, demo_browser)
      [HandleAnswer 1, SetAwardMember ''Ann'', HandleAwardPoint ''noon'',
       ResetAllTeamData True]))
     = [(''thinkTankTeamData'', ''{Ann:+}''), (''thinkTankTeamData'', ''{Ann:0}'')]"
    by (simp add: quiz_defs one)
  show ?thesis
    using persistence_snapshot
        [where members = "[''Ann'', ''Bob'']" and parse = "\<lambda>_. None" and b = demo_browser
           and stringify = demo_stringify and s = "demo_quiz\<lparr>awardMember := ''Ann''\<rparr>"
           and now = "''noon''" and ev = "ResetAllTeamData True" and evs = "[]"]
      persistence_snapshot
        [where members = "[''Ann'', ''Bob'']" and parse = "\<lambda>_. None"
           and b = "demo_browser\<lparr>items := [''thinkTankTeamData'' \<mapsto> ''{'']\<rparr>"
           and stringify = demo_stringify and s = demo_quiz
           and now = "''noon''" and ev = "ResetAllTeamData True" and evs = "[]"]
      m f g r
    by (simp add: demo_browser_def demo_stringify_def one Let_def split: prod.splits)
qed

subsection \<open>Awarding a point\<close>

text \<open>
  The handler's first test is the truth value of \<open>awardedForQuestion[questionIndex]\<close>.
  A recorded member is never the empty string, in any state the handlers reach from
  mounting, so the test holds exactly when a member is recorded for the question.
\<close>

lemma awardees_ok_step:
  assumes "awardees_ok (fst sb)"
  shows "awardees_ok (fst (step members stringify sb ev))"
proof -
  obtain s b where sb: "sb = (s, b)" by (cases sb)
  show ?thesis
    using assms unfolding sb
    by (cases ev)
       (auto simp: step_def awardees_ok_def handleAnswer_def handleAwardPoint_def
          nextQuestion_def resetQuiz_def resetAllTeamData_def Let_def
          split: if_splits option.splits inherited.splits)
qed

lemma awardees_ok_run:
  assumes "awardees_ok (fst sb)"
  shows "awardees_ok (fst (run members stringify sb evs))"
proof (induction evs rule: rev_induct)
  case Nil
  show ?case using assms by (simp add: run_def)
next
  case (snoc ev evs)
  show ?case unfolding run_snoc by (rule awardees_ok_step [OF snoc])
qed

lemma awardees_ok_mount:
  "mount members parse b = (Inr s, b1) \<Longrightarrow> awardees_ok s"
  by (auto simp: mount_def awardees_ok_def Let_def split: prod.splits sum.splits)

lemma truthy_iff_recorded:
  "awardees_ok s \<Longrightarrow> truthy (awardedForQuestion s q) \<longleftrightarrow> awardedForQuestion s q \<noteq> None"
  by (auto simp: awardees_ok_def truthy_def split: option.splits)




subsection \<open>The score\<close>

lemma upt_0_Suc: "[0..<Suc n] = 0 # map Suc [0..<n]"
  by (simp add: upt_conv_Cons map_Suc_upt del: upt_Suc)

lemma count_Cons:
  "length (filter (\<lambda>k. (a # answers) ! k = Some (correctAnswer (qs ! (index + k))))
             [0..<length (a # answers)])
     = (if a = Some (correctAnswer (qs ! index)) then 1 else 0)
       + length (filter (\<lambda>k. answers ! k = Some (correctAnswer (qs ! (Suc index + k))))
                   [0..<length answers])"
  by (simp add: upt_0_Suc filter_map comp_def del: upt_Suc)

lemma reduce_score_count:
  "index + length answers \<le> length qs \<Longrightarrow>
     reduce_score qs index answers score =
       Inr (score + length (filter (\<lambda>k. answers ! k = Some (correctAnswer (qs ! (index + k))))
                             [0..<length answers]))"
proof (induction answers arbitrary: index score)
  case Nil
  show ?case by simp
next
  case (Cons a answers)
  have ih: "reduce_score qs (Suc index) answers sc =
       Inr (sc + length (filter (\<lambda>k. answers ! k = Some (correctAnswer (qs ! (Suc index + k))))
                             [0..<length answers]))" for sc
    using Cons.IH [of "Suc index" sc] Cons.prems by simp
  show ?case
  proof (cases a)
    case None
    show ?thesis unfolding count_Cons using None ih by simp
  next
    case (Some answer)
    have "index < length qs" using Cons.prems by simp
    then show ?thesis unfolding count_Cons using Some ih by simp
  qed
qed

lemma matching_indices_bound: "length (matching_indices answers) \<le> length answers"
  unfolding matching_indices_def using length_filter_le [of _ "[0..<length answers]"] by simp

lemma answers_fit_step:
  assumes "answers_fit (fst sb)"
  shows "answers_fit (fst (step members stringify sb ev))"
proof -
  obtain s b where sb: "sb = (s, b)" by (cases sb)
  have n: "length quizQuestions = 8" by (simp add: quizQuestions_def)
  show ?thesis
  proof (cases ev)
    case (HandleAnswer i)
    then show ?thesis
      using assms n unfolding sb
      by (auto simp: step_def handleAnswer_def array_set_def answers_fit_def)
  next
    case (HandleAwardPoint now)
    then show ?thesis
      using assms unfolding sb
      by (auto simp: step_def handleAwardPoint_def answers_fit_def Let_def
               split: if_splits option.splits inherited.splits)
  next
    case NextQuestion
    then show ?thesis
      using assms n unfolding sb
      by (auto simp: step_def nextQuestion_def answers_fit_def Let_def)
  next
    case ResetQuiz
    then show ?thesis
      using assms n unfolding sb by (auto simp: step_def resetQuiz_def answers_fit_def)
  next
    case (ResetAllTeamData c)
    then show ?thesis
      using assms unfolding sb
      by (auto simp: step_def resetAllTeamData_def answers_fit_def Let_def)
  next
    case (SetAwardMember m)
    then show ?thesis using assms unfolding sb by (auto simp: step_def answers_fit_def)
  next
    case (SetShowLeaderboard v)
    then show ?thesis using assms unfolding sb by (auto simp: step_def answers_fit_def)
  qed
qed

lemma answers_fit_run:
  assumes "answers_fit (fst sb)"
  shows "answers_fit (fst (run members stringify sb evs))"
proof (induction evs rule: rev_induct)
  case Nil
  show ?case using assms by (simp add: run_def)
next
  case (snoc ev evs)
  show ?case unfolding run_snoc by (rule answers_fit_step [OF snoc])
qed

lemma answers_fit_play:
  assumes "answers_fit (fst sb)"
  shows "answers_fit (fst (play members stringify sb evs))"
proof (induction evs rule: rev_induct)
  case Nil
  show ?case using assms by (simp add: play_def)
next
  case (snoc ev evs)
  show ?case
    unfolding play_snoc fire_def using snoc answers_fit_step [OF snoc] by simp
qed

lemma answers_fit_mount:
  "mount members parse b = (Inr s, b1) \<Longrightarrow> answers_fit s"
  by (auto simp: mount_def answers_fit_def quizQuestions_def Let_def
           split: prod.splits sum.splits)

lemma score_of_fitting:
  assumes "length (selectedAnswers t) \<le> length quizQuestions"
  shows "calculateScore t = Inr (length (matching_indices (selectedAnswers t))) \<and>
      length (matching_indices (selectedAnswers t)) \<le> length quizQuestions"
  using assms reduce_score_count [of 0 "selectedAnswers t" quizQuestions 0]
    matching_indices_bound [of "selectedAnswers t"]
  by (simp add: calculateScore_def matching_indices_def)

text \<open>
  The error branch of \<open>calculateScore\<close> is taken only by an array longer than the quiz,
  which no handler produces.
\<close>

lemma calculateScore_beyond_quiz:
  "calculateScore (demo_quiz\<lparr>selectedAnswers :=
       [Some 1, Some 1, Some 1, Some 3, Some 1, Some 2, Some 1, Some 2, Some 0]\<rparr>)
     = Inl TypeError"
  by (simp add: calculateScore_def demo_quiz_def quizQuestions_def)

text \<open>
  Claim C10. \<open>calculateScore\<close> takes no argument: it reads the \<open>selectedAnswers\<close> of the
  component. In every state the component reaches from mounting, by any sequence of
  handler calls (and so in every session, where each action is taken only where the
  view offers it), \<open>calculateScore\<close> returns the number of indices at which the selected
  answer equals the question's correct answer, and that number is at most the number
  of quiz questions. The same holds of every list of answers no longer than the quiz.
\<close>

theorem score_counts_matches:
  "(\<forall>s0 b1. mount members parse b = (Inr s0, b1) \<longrightarrow>
      (let s' = fst (run members stringify (s0, b1) evs)
       in calculateScore s' = Inr (length (matching_indices (selectedAnswers s'))) \<and>
          length (matching_indices (selectedAnswers s')) \<le> length quizQuestions \<and>
          length (selectedAnswers s') \<le> length quizQuestions)) \<and>
   (\<forall>s0 b1. mount members parse b = (Inr s0, b1) \<longrightarrow>
      (let s' = fst (play members stringify (s0, b1) evs)
       in calculateScore s' = Inr (length (matching_indices (selectedAnswers s'))) \<and>
          length (matching_indices (selectedAnswers s')) \<le> length quizQuestions \<and>
          length (selectedAnswers s') \<le> length quizQuestions)) \<and>
   (length (selectedAnswers s) \<le> length quizQuestions \<longrightarrow>
      calculateScore s = Inr (length (matching_indices (selectedAnswers s))) \<and>
      length (matching_indices (selectedAnswers s)) \<le> length quizQuestions)"
proof -
  have R: "length (selectedAnswers (fst (run members stringify (s0, b1) evs)))
             \<le> length quizQuestions"
    if "mount members parse b = (Inr s0, b1)" for s0 b1
    using answers_fit_run [of "(s0, b1)" members stringify evs] answers_fit_mount [OF that]
    by (simp add: answers_fit_def)
  have P: "length (selectedAnswers (fst (play members stringify (s0, b1) evs)))
             \<le> length quizQuestions"
    if "mount members parse b = (Inr s0, b1)" for s0 b1
    using answers_fit_play [of "(s0, b1)" members stringify evs] answers_fit_mount [OF that]
    by (simp add: answers_fit_def)
  show ?thesis
    using R P score_of_fitting by (simp add: Let_def)
qed

theorem score_counts_matches_witness:
  "fst (mount [''Ann'', ''Bob''] (\<lambda>_. None) demo_browser) = Inr demo_quiz \<and>
   calculateScore (fst (run [''Ann'', ''Bob''] demo_stringify
      (demo_quiz, snd (mount [''Ann'', ''Bob''] (\<lambda>_. None) demo_browser))
      [HandleAnswer 1, NextQuestion, NextQuestion, HandleAnswer 1, HandleAnswer 2])) = Inr 1 \<and>
   calculateScore (fst (play [''Ann'', ''Bob''] demo_stringify
      (demo_quiz, snd (mount [''Ann'', ''Bob''] (\<lambda>_. None) demo_browser))
      [HandleAnswer 1, HandleAnswer 2, NextQuestion, HandleAnswer 3])) = Inr 1 \<and>
   calculateScore (demo_quiz\<lparr>selectedAnswers := [Some 1, Some 0, Some 1]\<rparr>) = Inr 2"
proof -
  let ?b1 = "snd (mount [''Ann'', ''Bob''] (\<lambda>_. None) demo_browser)"
  have m: "mount [''Ann'', ''Bob''] (\<lambda>_. None) demo_browser = (Inr demo_quiz, ?b1)"
    by (simp add: mount_def loadTeamData_def getItem_def demo_browser_def demo_quiz_def Let_def)
  have m1: "fst (mount [''Ann'', ''Bob''] (\<lambda>_. None) demo_browser) = Inr demo_quiz"
    by (simp add: mount_def loadTeamData_def getItem_def demo_browser_def demo_quiz_def Let_def)
  have r: "selectedAnswers (fst (run [''Ann'', ''Bob''] demo_stringify (demo_quiz, ?b1)
      [HandleAnswer 1, NextQuestion, NextQuestion, HandleAnswer 1, HandleAnswer 2]))
      = [Some 1, None, Some 2]"
    by (simp add: run_def step_def handleAnswer_def nextQuestion_def array_set_def
          demo_quiz_def quizQuestions_def Let_def)
  have p: "selectedAnswers (fst (play [''Ann'', ''Bob''] demo_stringify (demo_quiz, ?b1)
      [HandleAnswer 1, HandleAnswer 2, NextQuestion, HandleAnswer 3])) = [Some 1, Some 3]"
    by (simp add: play_def fire_def offered_def step_def handleAnswer_def nextQuestion_def
          array_set_def demo_quiz_def quizQuestions_def Let_def)
  have a: "length (selectedAnswers (demo_quiz\<lparr>selectedAnswers := [Some 1, Some 0, Some 1]\<rparr>))
             \<le> length quizQuestions"
    by (simp add: quizQuestions_def)
  have c1: "calculateScore (fst (run [''Ann'', ''Bob''] demo_stringify (demo_quiz, ?b1)
      [HandleAnswer 1, NextQuestion, NextQuestion, HandleAnswer 1, HandleAnswer 2]))
      = Inr (length (matching_indices [Some 1, None, Some 2]))"
    using score_counts_matches [of "[''Ann'', ''Bob'']" "\<lambda>_. None" demo_browser demo_stringify
        "[HandleAnswer 1, NextQuestion, NextQuestion, HandleAnswer 1, HandleAnswer 2]"] m r
    by (simp add: Let_def)
  have c2: "calculateScore (fst (play [''Ann'', ''Bob''] demo_stringify (demo_quiz, ?b1)
      [HandleAnswer 1, HandleAnswer 2, NextQuestion, HandleAnswer 3]))
      = Inr (length (matching_indices [Some 1, Some 3]))"
    using score_counts_matches [of "[''Ann'', ''Bob'']" "\<lambda>_. None" demo_browser demo_stringify
        "[HandleAnswer 1, HandleAnswer 2, NextQuestion, HandleAnswer 3]"] m p
    by (simp add: Let_def)
  have c3: "calculateScore (demo_quiz\<lparr>selectedAnswers := [Some 1, Some 0, Some 1]\<rparr>)
      = Inr (length (matching_indices [Some 1, Some 0, Some 1]))"
    using score_counts_matches
      [where s = "demo_quiz\<lparr>selectedAnswers := [Some 1, Some 0, Some 1]\<rparr>"] a
    by simp
  have e1: "length (matching_indices [Some 1, None, Some 2]) = 1"
    by (simp add: matching_indices_def quizQuestions_def)
  have e2: "length (matching_indices [Some 1, Some 3]) = 1"
    by (simp add: matching_indices_def quizQuestions_def)
  have e3: "length (matching_indices [Some 1, Some 0, Some 1]) = 2"
    by (simp add: matching_indices_def quizQuestions_def)
  show ?thesis using c1 c2 c3 e1 e2 e3 m1 by simp
qed

end
